theory Spec2Isabelle
  imports Complex_Main "HOL-Library.Sublist"
begin

section \<open>Numbers\<close>

text \<open>
  The components compute with JavaScript numbers, which are IEEE 754 binary64 values.
  A number read from a form field is either \<open>NaN\<close> (the field is empty or holds no
  numeral) or a finite value. A finite value is modelled by the real number it denotes,
  and every arithmetic operation of the source by the exact operation followed by the
  rounding \<open>binary64\<close> below.
\<close>

datatype jsnum = NaN | Fin real

text \<open>The position of the leading bit of a positive integer.\<close>

function ilog2 :: "int \<Rightarrow> nat" where
  "ilog2 n = (if n < 2 then 0 else Suc (ilog2 (n div 2)))"
  by pat_completeness auto

termination
  by (relation "measure nat") auto

declare ilog2.simps [simp del]

text \<open>
  The binary exponent of a positive real \<open>x\<close>: the integer \<open>e\<close> with
  \<open>2 powi e \<le> x < 2 powi (e + 1)\<close>.
\<close>

definition expo :: "real \<Rightarrow> int" where
  "expo x =
     (if 1 \<le> x then int (ilog2 \<lfloor>x\<rfloor>)
      else - int (ilog2 (\<lceil>1 / x\<rceil> - 1)) - 1)"

text \<open>The nearest integer, the even one on a tie.\<close>

definition round_even :: "real \<Rightarrow> int" where
  "round_even s =
     (let n = \<lfloor>s\<rfloor>; f = s - of_int n
      in if f < 1 / 2 then n else if 1 / 2 < f then n + 1 else if even n then n else n + 1)"

text \<open>
  Rounding to the nearest number with 53 significant bits, ties to the even mantissa:
  the rounding of binary64 arithmetic, with no bound on the exponent. A result whose
  magnitude reaches \<open>2 ^ 1024\<close> is an overflow of the machine (see \<open>fit\<close> below); the
  machine has fewer bits for results below \<open>2 powi (- 1022)\<close> in magnitude, which the
  tariff loop does not produce as a non-zero product or difference and which are too
  small to show in a text of two decimals.
\<close>

definition binary64 :: "real \<Rightarrow> real" where
  "binary64 x =
     (if x = 0 then 0
      else
        let q = expo \<bar>x\<bar> - 52
        in sgn x * of_int (round_even (\<bar>x\<bar> / 2 powi q)) * 2 powi q)"

text \<open>
  \<open>x.toFixed(2)\<close> for \<open>\<bar>x\<bar> < 10 ^ 21\<close>: the decimal with two fraction digits nearest to the
  exact value of \<open>x\<close>, the larger one on a tie, the sign handled apart. The model keeps
  the value the produced text denotes.
\<close>

definition toFixed2 :: "real \<Rightarrow> real" where
  "toFixed2 x =
     (if x < 0 then - (of_int \<lfloor>- x * 100 + 1 / 2\<rfloor> / 100)
      else of_int \<lfloor>x * 100 + 1 / 2\<rfloor> / 100)"

section \<open>Tariff computation of the quantum calculator\<close>

text \<open>The upper end of a slab is a number or \<open>Number.POSITIVE_INFINITY\<close>.\<close>

datatype limit = Finite real | PosInfinity

record slab =
  sfrom :: real
  sto :: limit
  srate :: real

text \<open>In a breakup row the upper end is shown as the text "Above" when it is infinite.\<close>

datatype row_to = To real | Above

record row =
  rfrom :: real
  rto :: row_to
  runits :: real
  rrate :: real
  ramount :: real

record bill_result =
  units :: real
  total_amount :: real
  breakup :: "row list"

definition slabs :: "slab list" where
  "slabs =
     [\<lparr>sfrom = 0, sto = Finite 100, srate = 0\<rparr>,
      \<lparr>sfrom = 101, sto = Finite 200, srate = 9 / 4\<rparr>,
      \<lparr>sfrom = 201, sto = Finite 500, srate = 9 / 2\<rparr>,
      \<lparr>sfrom = 501, sto = Finite 1000, srate = 6\<rparr>,
      \<lparr>sfrom = 1001, sto = PosInfinity, srate = 8\<rparr>]"

text \<open>\<open>slab.to - slab.from + 1\<close>, infinite for the last slab.\<close>

definition capacity :: "slab \<Rightarrow> limit" where
  "capacity s =
     (case sto s of
        Finite t \<Rightarrow> Finite (binary64 (binary64 (t - sfrom s) + 1))
      | PosInfinity \<Rightarrow> PosInfinity)"

text \<open>\<open>Math.min\<close> of a finite number and a possibly infinite one.\<close>

fun math_min :: "real \<Rightarrow> limit \<Rightarrow> real" where
  "math_min r (Finite c) = min r c"
| "math_min r PosInfinity = r"

fun shown_to :: "limit \<Rightarrow> row_to" where
  "shown_to (Finite t) = To t"
| "shown_to PosInfinity = Above"

text \<open>
  The loop over the slab table, with its three variables \<open>remainingUnits\<close>,
  \<open>totalAmount\<close> and \<open>breakdown\<close>; it leaves at the first slab reached with nothing
  remaining. The product, the sum and the difference are rounded as the machine rounds
  them.
\<close>

fun slab_loop :: "slab list \<Rightarrow> real \<Rightarrow> real \<Rightarrow> row list \<Rightarrow> real \<times> row list" where
  "slab_loop [] remainingUnits totalAmount breakdown = (totalAmount, breakdown)"
| "slab_loop (s # rest) remainingUnits totalAmount breakdown =
     (if remainingUnits \<le> 0 then (totalAmount, breakdown)
      else
        let slabUnits = math_min remainingUnits (capacity s);
            amount = binary64 (slabUnits * srate s)
        in slab_loop rest (binary64 (remainingUnits - slabUnits)) (binary64 (totalAmount + amount))
             (breakdown @
              [\<lparr>rfrom = sfrom s, rto = shown_to (sto s), runits = slabUnits,
                rrate = srate s, ramount = toFixed2 amount\<rparr>]))"

text \<open>
  The result built after the loop from a units value that passed the guard. The two
  amounts are kept as the values their texts denote; from \<open>10 ^ 21\<close> on, where
  \<open>toFixed\<close> prints the number plainly, that is the number itself, which \<open>toFixed2\<close>
  returns for a binary64 number of this size. Overflow of the products and of the sum,
  which takes more than \<open>2 ^ 1020\<close> units, is not modelled here.
\<close>

definition bill_of :: "real \<Rightarrow> bill_result" where
  "bill_of unitsValue =
     (let (totalAmount, breakdown) = slab_loop slabs unitsValue 0 []
      in \<lparr>units = unitsValue, total_amount = toFixed2 totalAmount, breakup = breakdown\<rparr>)"

record qc_state =
  result :: "bill_result option"
  isCalculating :: bool

text \<open>
  The handler \<open>calculateBill\<close> of QuantumCalculator, given the parsed field: it returns
  at once, changing nothing, when the value is \<open>NaN\<close> or not positive.
\<close>

fun QuantumCalculator_calculateBill :: "jsnum \<Rightarrow> qc_state \<Rightarrow> qc_state" where
  "QuantumCalculator_calculateBill NaN st = st"
| "QuantumCalculator_calculateBill (Fin unitsValue) st =
     (if unitsValue \<le> 0 then st
      else st\<lparr>result := Some (bill_of unitsValue), isCalculating := False\<rparr>)"

text \<open>
  Two properties of a slab that the walk relies on: its capacity is positive, and it is
  a whole number.
\<close>

definition cap_pos :: "slab \<Rightarrow> bool" where
  "cap_pos s = (case capacity s of Finite c \<Rightarrow> 0 < c | PosInfinity \<Rightarrow> True)"

definition cap_whole :: "slab \<Rightarrow> bool" where
  "cap_whole s =
     (case capacity s of Finite c \<Rightarrow> 0 < c \<and> of_int \<lfloor>c\<rfloor> = c | PosInfinity \<Rightarrow> True)"

section \<open>The bill calculator backed by the server\<close>

record bc_state =
  billData :: "bill_result option"
  isLoading :: bool
  error :: string

text \<open>
  What the request \<open>GET /api/bill?units=...\<close> comes to: the call or the decoding of the
  body throws an error with a message, the response is not OK (status and status text),
  the decoded body carries an \<open>error\<close> field, or it is the bill.
\<close>

datatype bill_fetch =
    Throws string
  | NotOk string string
  | ErrorBody string
  | Data bill_result

text \<open>
  The handler \<open>calculateBill\<close> of BillCalculator, given the parsed field and the
  behaviour of the server. It returns the new component state and the list of units
  values for which a request was sent.
\<close>

definition invalid_units_message :: string where
  "invalid_units_message = ''Please enter a valid number of units (greater than 0)''"

definition too_high_message :: string where
  "too_high_message = ''Units seem too high. Please check your input.''"

definition bill_request ::
  "real \<Rightarrow> (real \<Rightarrow> bill_fetch) \<Rightarrow> bc_state \<Rightarrow> bc_state \<times> real list" where
  "bill_request unitsValue fetch st =
     (let st1 = st\<lparr>isLoading := True, error := [], billData := None\<rparr>;
          st2 =
            (case fetch unitsValue of
               Throws m \<Rightarrow> st1\<lparr>error := ''Error calculating bill: '' @ m\<rparr>
             | NotOk status statusText \<Rightarrow>
                 st1\<lparr>error := ''Error calculating bill: HTTP '' @ status @ '': '' @ statusText\<rparr>
             | ErrorBody e \<Rightarrow> st1\<lparr>error := e\<rparr>
             | Data d \<Rightarrow> st1\<lparr>billData := Some d\<rparr>)
      in (st2\<lparr>isLoading := False\<rparr>, [unitsValue]))"

fun BillCalculator_calculateBill ::
  "jsnum \<Rightarrow> (real \<Rightarrow> bill_fetch) \<Rightarrow> bc_state \<Rightarrow> bc_state \<times> real list" where
  "BillCalculator_calculateBill NaN fetch st = (st\<lparr>error := invalid_units_message\<rparr>, [])"
| "BillCalculator_calculateBill (Fin unitsValue) fetch st =
     (if unitsValue \<le> 0 then (st\<lparr>error := invalid_units_message\<rparr>, [])
      else if unitsValue > 10000 then (st\<lparr>error := too_high_message\<rparr>, [])
      else bill_request unitsValue fetch st)"

text \<open>The guard shared by both handlers: \<open>isNaN(unitsValue) || unitsValue <= 0\<close>.\<close>

fun invalid_units :: "jsnum \<Rightarrow> bool" where
  "invalid_units NaN = True"
| "invalid_units (Fin unitsValue) = (unitsValue \<le> 0)"

section \<open>The forecast card of the dashboard\<close>

text \<open>
  A number computed by the forecast code: \<open>NaN\<close>, a finite value, or an infinity with
  its sign (\<open>True\<close> for the positive one).
\<close>

datatype double = DNaN | DFin real | DInf bool

text \<open>The result of an arithmetic operation whose exact value is \<open>y\<close>, with overflow.\<close>

definition fit :: "real \<Rightarrow> double" where
  "fit y = (let z = binary64 y in if 2 ^ 1024 \<le> \<bar>z\<bar> then DInf (0 < z) else DFin z)"

text \<open>
  A field of a forecast object as the dashboard meets it: absent, a number decoded from
  the server's JSON, a text of two decimals made by \<open>toFixed(2)\<close> (with the value it
  denotes), or the text \<open>toFixed(2)\<close> returns otherwise, which is the plain printing of
  the number: "NaN", "Infinity", or the exponent form of a number from \<open>10 ^ 21\<close> on.
\<close>

datatype jsfield = Missing | Number real | Decimal real | Printed double

text \<open>The number a field stands for in an arithmetic expression.\<close>

fun to_number :: "jsfield \<Rightarrow> double" where
  "to_number Missing = DNaN"
| "to_number (Number x) = DFin x"
| "to_number (Decimal v) = fit v"
| "to_number (Printed n) = n"


fun toFixed :: "double \<Rightarrow> jsfield" where
  "toFixed DNaN = Printed DNaN"
| "toFixed (DInf s) = Printed (DInf s)"
| "toFixed (DFin x) = (if 10 ^ 21 \<le> \<bar>x\<bar> then Printed (DFin x) else Decimal (toFixed2 x))"

text \<open>
  Product with a finite number, and quotient by the number of days of a period, which
  is never zero.
\<close>

fun js_times :: "double \<Rightarrow> real \<Rightarrow> double" where
  "js_times DNaN m = DNaN"
| "js_times (DFin x) m = fit (x * m)"
| "js_times (DInf s) m = (if m = 0 then DNaN else DInf (s = (0 < m)))"

fun js_over :: "double \<Rightarrow> real \<Rightarrow> double" where
  "js_over DNaN d = DNaN"
| "js_over (DFin x) d = fit (x / d)"
| "js_over (DInf s) d = DInf (s = (0 < d))"

text \<open>
  The forecast period is the value of one of the six entries of \<open>predictionOptions\<close>
  (the initial state is "30"); \<open>parseInt\<close> gives its number of days, never zero.
\<close>

datatype prediction_option = D15 | D30 | D45 | D60 | D90 | D365

fun parseInt :: "prediction_option \<Rightarrow> real" where
  "parseInt D15 = 15"
| "parseInt D30 = 30"
| "parseInt D45 = 45"
| "parseInt D60 = 60"
| "parseInt D90 = 90"
| "parseInt D365 = 365"

text \<open>
  A forecast object: the fields the dashboard reads, \<open>bill_total_amount\<close> standing
  for \<open>bill?.total_amount\<close>.
\<close>

record forecast =
  predicted_kwh :: jsfield
  bill_total_amount :: jsfield
  daily_avg_kwh :: jsfield
  daily_avg_cost :: jsfield
  prediction_period_days :: "real option"
  confidence :: "string option"

text \<open>The fallback object computed from the base prediction of the dashboard data.\<close>

definition fallbackData :: "forecast \<Rightarrow> prediction_option \<Rightarrow> forecast" where
  "fallbackData baseData period =
     (let multiplier = binary64 (parseInt period / 30)
      in \<lparr>predicted_kwh = toFixed (js_times (to_number (predicted_kwh baseData)) multiplier),
          bill_total_amount = toFixed (js_times (to_number (bill_total_amount baseData)) multiplier),
          daily_avg_kwh =
            toFixed (js_over (js_times (to_number (predicted_kwh baseData)) multiplier) (parseInt period)),
          daily_avg_cost =
            toFixed (js_over (js_times (to_number (bill_total_amount baseData)) multiplier) (parseInt period)),
          prediction_period_days = Some (parseInt period),
          confidence = Some ''estimated''\<rparr>)"

text \<open>
  The unrounded product \<open>value * multiplier\<close> of the fallback for a finite base value,
  as long as it does not overflow.
\<close>

definition scaled :: "real \<Rightarrow> prediction_option \<Rightarrow> real" where
  "scaled v period = binary64 (v * binary64 (parseInt period / 30))"

text \<open>
  What the request \<open>GET /api/predict?days=...\<close> comes to: an OK response with its
  decoded body, a response that is not OK, or a call that throws.
\<close>

datatype predict_fetch = Ok forecast | NotOkResponse | FetchThrows

record dashboard_state =
  selectedPredictionPeriod :: prediction_option
  forecastData :: "forecast option"
  isLoadingForecast :: bool

text \<open>
  \<open>handlePredictionPeriodChange\<close>, given the server's behaviour and
  \<open>dashboardData?.prediction\<close>. Both failure branches compute the same fallback, and
  only when a base prediction is there.
\<close>

definition handlePredictionPeriodChange ::
  "prediction_option \<Rightarrow> (prediction_option \<Rightarrow> predict_fetch) \<Rightarrow> forecast option
     \<Rightarrow> dashboard_state \<Rightarrow> dashboard_state" where
  "handlePredictionPeriodChange period fetch prediction st =
     (let st1 = st\<lparr>selectedPredictionPeriod := period, isLoadingForecast := True,
                   forecastData := None\<rparr>;
          st2 =
            (case fetch period of
               Ok data \<Rightarrow> st1\<lparr>forecastData := Some data\<rparr>
             | NotOkResponse \<Rightarrow>
                 (case prediction of
                    None \<Rightarrow> st1
                  | Some baseData \<Rightarrow> st1\<lparr>forecastData := Some (fallbackData baseData period)\<rparr>)
             | FetchThrows \<Rightarrow>
                 (case prediction of
                    None \<Rightarrow> st1
                  | Some baseData \<Rightarrow> st1\<lparr>forecastData := Some (fallbackData baseData period)\<rparr>))
      in st2\<lparr>isLoadingForecast := False\<rparr>)"



section \<open>The lookups of the assistant's tools\<close>

text \<open>The URLs the tools ask for, below \<open>API_BASE\<close>.\<close>

datatype request =
    PeakReq
  | DevicesReq
  | PredictReq real
  | DeviceReq string
  | SuggestionsReq
  | WeatherReq string

text \<open>
  What the network does with a request: it never answers, the call fails with a
  message, or a response arrives after some milliseconds, OK or not, with its status and
  its body decoded as JSON (\<open>None\<close> when the body is no JSON).
\<close>

datatype 'j net_behaviour =
    Hangs
  | Fails string
  | Responds nat bool string "'j option"

datatype fetch_error = Aborted | NetworkFailure string | HttpStatus string | BadBody

text \<open>
  \<open>fetchJSON\<close>: the abort timer is set to \<open>timeoutMs\<close> and cleared only after the body
  has been decoded, so a response counts when it is complete before the timer fires.
  \<open>Inl\<close> is the error thrown.
\<close>

definition fetchJSON ::
  "request \<Rightarrow> nat \<Rightarrow> (request \<Rightarrow> 'j net_behaviour) \<Rightarrow> fetch_error + 'j" where
  "fetchJSON url timeoutMs net =
     (case net url of
        Hangs \<Rightarrow> Inl Aborted
      | Fails m \<Rightarrow> Inl (NetworkFailure m)
      | Responds latency ok status body \<Rightarrow>
          if timeoutMs \<le> latency then Inl Aborted
          else if \<not> ok then Inl (HttpStatus status)
          else (case body of None \<Rightarrow> Inl BadBody | Some j \<Rightarrow> Inr j))"

text \<open>The default of the parameter \<open>timeoutMs\<close>; no tool passes another value.\<close>

definition default_timeoutMs :: nat where
  "default_timeoutMs = 10000"

text \<open>
  A tool returns the decoded JSON, or in its \<open>catch\<close> branch an object with the single
  field \<open>error\<close>. Beside the value, the model returns the network calls made, each with
  its timeout.
\<close>

datatype 'j tool_result = ErrorValue fetch_error | Json 'j

definition lookup ::
  "request \<Rightarrow> (request \<Rightarrow> 'j net_behaviour) \<Rightarrow> (request \<times> nat) list \<times> 'j tool_result" where
  "lookup url net =
     ([(url, default_timeoutMs)],
      case fetchJSON url default_timeoutMs net of
        Inl e \<Rightarrow> ErrorValue e
      | Inr j \<Rightarrow> Json j)"

definition getDeviceConsumptionData ::
  "(request \<Rightarrow> 'j net_behaviour) \<Rightarrow> (request \<times> nat) list \<times> 'j tool_result" where
  "getDeviceConsumptionData net = lookup DevicesReq net"

definition getWeatherData ::
  "string \<Rightarrow> (request \<Rightarrow> 'j net_behaviour) \<Rightarrow> (request \<times> nat) list \<times> 'j tool_result" where
  "getWeatherData city net = lookup (WeatherReq city) net"

text \<open>
  The input of the forecast tool: the field \<open>days\<close> is left out, is a number, or is a
  value of another type. Its schema is \<open>number().int().min(1).max(365).optional()\<close>;
  the tool framework checks it before \<open>execute\<close> runs.
\<close>

datatype days_input = Omitted | Given real | NotNumber

datatype 'a validated = InvalidInput | Valid 'a

fun inputSchema_days :: "days_input \<Rightarrow> real option validated" where
  "inputSchema_days Omitted = Valid None"
| "inputSchema_days NotNumber = InvalidInput"
| "inputSchema_days (Given d) =
     (if of_int \<lfloor>d\<rfloor> = d \<and> 1 \<le> d \<and> d \<le> 365 then Valid (Some d) else InvalidInput)"

text \<open>\<open>execute: async ({ days = 30 }) => ...\<close>\<close>

definition execute_predict ::
  "real option \<Rightarrow> (request \<Rightarrow> 'j net_behaviour) \<Rightarrow> (request \<times> nat) list \<times> 'j tool_result" where
  "execute_predict days net =
     lookup (PredictReq (case days of None \<Rightarrow> 30 | Some d \<Rightarrow> d)) net"

definition getPredictedBillAndTariff ::
  "days_input \<Rightarrow> (request \<Rightarrow> 'j net_behaviour)
     \<Rightarrow> ((request \<times> nat) list \<times> 'j tool_result) validated" where
  "getPredictedBillAndTariff input net =
     (case inputSchema_days input of
        InvalidInput \<Rightarrow> InvalidInput
      | Valid days \<Rightarrow> Valid (execute_predict days net))"

section \<open>Uploading readings\<close>

datatype json =
    JNull
  | JBool bool
  | JNum real
  | JStr string
  | JArr "json list"
  | JObj "(string \<times> json) list"

record upload_file =
  file_name :: string
  file_text :: string

text \<open>The fields read from the decoded body of the upload response.\<close>

record upload_result =
  status :: "string option"
  error_text :: "string option"
  rows_loaded :: "nat option"

text \<open>
  What \<open>POST /api/upload\<close> comes to: the call or the decoding of the body throws, or a
  response arrives, OK or not, with its decoded body.
\<close>

datatype upload_fetch = UploadThrows string | UploadReply bool upload_result

datatype status_type = Success | ErrorStatus | Loading

text \<open>
  The final messages: "Invalid file format. Please select a JSON file.", "Backend
  connection required. Please check your connection.", "Successfully uploaded n energy
  readings", the server's \<open>error\<close> or "Upload failed", and "Error: " followed by the
  message of the error caught.
\<close>

datatype message =
    InvalidFileFormat
  | ConnectionRequired
  | Uploaded nat
  | ServerSaid string
  | Caught string

record upload_status =
  stype :: "status_type option"
  smessage :: message
  progress :: "nat option"

datatype callback = OnDataUpload "json list" | OnDataLoaded

definition error_status :: "message \<Rightarrow> upload_status" where
  "error_status m = \<lparr>stype = Some ErrorStatus, smessage = m, progress = None\<rparr>"

text \<open>\<open>a || b\<close> on an optional text and on an optional count.\<close>

fun or_text :: "string option \<Rightarrow> string \<Rightarrow> string" where
  "or_text None b = b"
| "or_text (Some a) b = (if a = [] then b else a)"

fun or_count :: "nat option \<Rightarrow> nat \<Rightarrow> nat" where
  "or_count None b = b"
| "or_count (Some a) b = (if a = 0 then b else a)"

text \<open>
  \<open>handleFile\<close> of DataUpload, given \<open>connection.isConnected\<close>, the outcome of
  \<open>JSON.parse\<close> on a text (\<open>Inl\<close> the message of the error thrown) and the behaviour of
  the server. It returns the final upload status, the callbacks invoked in order, and
  the bodies posted to the server.
\<close>

definition handleFile ::
  "upload_file \<Rightarrow> bool \<Rightarrow> (string \<Rightarrow> string + json) \<Rightarrow> (json list \<Rightarrow> upload_fetch)
     \<Rightarrow> upload_status \<times> callback list \<times> json list list" where
  "handleFile f isConnected parse upload =
     (if \<not> suffix ''.json'' (file_name f) then (error_status InvalidFileFormat, [], [])
      else if \<not> isConnected then (error_status ConnectionRequired, [], [])
      else
        (case parse (file_text f) of
           Inl m \<Rightarrow> (error_status (Caught m), [], [])
         | Inr (JArr data) \<Rightarrow>
             (case upload data of
                UploadThrows m \<Rightarrow> (error_status (Caught m), [], [data])
              | UploadReply ok r \<Rightarrow>
                  if ok \<and> status r = Some ''success''
                  then (\<lparr>stype = Some Success,
                          smessage = Uploaded (or_count (rows_loaded r) (length data)),
                          progress = Some 100\<rparr>,
                        [OnDataUpload data, OnDataLoaded], [data])
                  else (error_status (ServerSaid (or_text (error_text r) ''Upload failed'')),
                        [], [data]))
         | Inr _ \<Rightarrow>
             (error_status (Caught ''Data must be an array of energy readings''), [], [])))"

text \<open>
  The page that owns the data: \<open>onDataUpload\<close> is \<open>handleDataUpload\<close>, which replaces
  the reading set and reloads the dashboard data; \<open>onDataLoaded\<close> is the reload itself,
  here any function of the page state.
\<close>

record 'd page =
  energyData :: "json list"
  dashboardData :: 'd

fun run_callback :: "('d page \<Rightarrow> 'd page) \<Rightarrow> callback \<Rightarrow> 'd page \<Rightarrow> 'd page" where
  "run_callback loadDashboardData (OnDataUpload data) pg =
     loadDashboardData (pg\<lparr>energyData := data\<rparr>)"
| "run_callback loadDashboardData OnDataLoaded pg = loadDashboardData pg"

definition page_after_upload ::
  "upload_file \<Rightarrow> bool \<Rightarrow> (string \<Rightarrow> string + json) \<Rightarrow> (json list \<Rightarrow> upload_fetch)
     \<Rightarrow> ('d page \<Rightarrow> 'd page) \<Rightarrow> 'd page \<Rightarrow> 'd page" where
  "page_after_upload f isConnected parse upload loadDashboardData pg =
     fold (run_callback loadDashboardData) (fst (snd (handleFile f isConnected parse upload))) pg"

section \<open>Sample environments\<close>

text \<open>A bill server that answers every request with the bill of the local table.\<close>

definition local_server :: "real \<Rightarrow> bill_fetch" where
  "local_server unitsValue = Data (bill_of unitsValue)"

text \<open>A network that never answers, and a forecast service that is down.\<close>

definition silent_net :: "request \<Rightarrow> json net_behaviour" where
  "silent_net url = Hangs"

definition predict_down :: "prediction_option \<Rightarrow> predict_fetch" where
  "predict_down period = FetchThrows"


text \<open>
  An upload of the one-element array \<open>[1]\<close> to a server that refuses every upload, on a
  page whose reload counts how often it ran.
\<close>

definition array_parser :: "string \<Rightarrow> string + json" where
  "array_parser t = Inr (JArr [JNum 1])"

definition refusing_server :: "json list \<Rightarrow> upload_fetch" where
  "refusing_server data =
     UploadReply False \<lparr>status = Some ''error'', error_text = Some ''bad rows'', rows_loaded = None\<rparr>"

definition counting_reload :: "nat page \<Rightarrow> nat page" where
  "counting_reload pg = pg\<lparr>dashboardData := Suc (dashboardData pg)\<rparr>"

section \<open>Properties of the rounding\<close>

lemma ilog2_bounds: "0 < n \<Longrightarrow> 2 ^ ilog2 n \<le> n \<and> n < 2 ^ Suc (ilog2 n)"
proof (induction n rule: ilog2.induct)
  case (1 n)
  show ?case
  proof (cases "n < 2")
    case True
    with "1.prems" have "n = 1" by simp
    then show ?thesis by (simp add: ilog2.simps)
  next
    case False
    then have "0 < n div 2" by simp
    then have ih: "2 ^ ilog2 (n div 2) \<le> n div 2" "n div 2 < 2 ^ Suc (ilog2 (n div 2))"
      using "1.IH" False by simp_all
    have eq: "ilog2 n = Suc (ilog2 (n div 2))"
      using False by (subst ilog2.simps) simp
    have "2 * 2 ^ ilog2 (n div 2) \<le> 2 * (n div 2)" using ih(1) by simp
    also have "\<dots> \<le> n" by simp
    finally have lo: "2 ^ ilog2 n \<le> n" by (simp add: eq)
    have "n div 2 + 1 \<le> 2 ^ Suc (ilog2 (n div 2))" using ih(2) by simp
    then have "2 * (n div 2 + 1) \<le> 2 * 2 ^ Suc (ilog2 (n div 2))" by simp
    moreover have "n < 2 * (n div 2 + 1)" by simp
    ultimately have "n < 2 ^ Suc (ilog2 n)" by (simp add: eq)
    with lo show ?thesis by simp
  qed
qed

lemma expo_bounds:
  assumes "0 < x"
  shows "2 powi expo x \<le> x" and "x < 2 powi (expo x + 1)"
proof -
  have "2 powi expo x \<le> x \<and> x < 2 powi (expo x + 1)"
  proof (cases "1 \<le> x")
    case True
    define n where "n = \<lfloor>x\<rfloor>"
    have npos: "0 < n" using True by (simp add: n_def)
    have e: "expo x = int (ilog2 n)" using True by (simp add: expo_def n_def)
    from ilog2_bounds [OF npos] have b: "2 ^ ilog2 n \<le> n" "n + 1 \<le> 2 ^ Suc (ilog2 n)" by simp_all
    have r1: "(2::real) ^ ilog2 n \<le> of_int n"
      using b(1) by (metis of_int_le_iff of_int_numeral of_int_power)
    have fx: "of_int n \<le> x" "x < of_int n + 1" unfolding n_def by linarith+
    have pe: "(2::real) powi expo x = 2 ^ ilog2 n" by (simp only: e power_int_of_nat)
    have lo: "2 powi expo x \<le> x" using r1 fx(1) pe by linarith
    have "(of_int (n + 1) :: real) \<le> of_int (2 ^ Suc (ilog2 n))"
      using b(2) by (simp only: of_int_le_iff)
    then have r2: "of_int n + 1 \<le> (2::real) ^ Suc (ilog2 n)" by simp
    then have "x < 2 ^ Suc (ilog2 n)" using fx(2) by linarith
    moreover have "expo x + 1 = int (Suc (ilog2 n))" by (simp add: e)
    then have "(2::real) powi (expo x + 1) = 2 ^ Suc (ilog2 n)"
      by (simp only: power_int_of_nat)
    ultimately show ?thesis using lo by simp
  next
    case False
    define y where "y = 1 / x"
    have y1: "1 < y" using False assms by (simp add: y_def)
    define n where "n = \<lceil>y\<rceil> - 1"
    have c2: "2 \<le> \<lceil>y\<rceil>" using y1 by linarith
    have npos: "0 < n" using c2 by (simp add: n_def)
    have e: "expo x = - int (ilog2 n) - 1" using False by (simp add: expo_def n_def y_def)
    have cn: "of_int \<lceil>y\<rceil> = (of_int n :: real) + 1" by (simp add: n_def)
    from ilog2_bounds [OF npos] have b: "2 ^ ilog2 n \<le> n" "n + 1 \<le> 2 ^ Suc (ilog2 n)" by simp_all
    have b1: "(2::real) ^ ilog2 n \<le> of_int n"
      using b(1) by (metis of_int_le_iff of_int_numeral of_int_power)
    have "(of_int (n + 1) :: real) \<le> of_int (2 ^ Suc (ilog2 n))"
      using b(2) by (simp only: of_int_le_iff)
    then have b2: "of_int n + 1 \<le> (2::real) ^ Suc (ilog2 n)" by simp
    have "y \<le> of_int \<lceil>y\<rceil>" by simp
    then have yle: "y \<le> 2 ^ Suc (ilog2 n)" using cn b2 by linarith
    have "of_int \<lceil>y\<rceil> < y + 1" by linarith
    then have "of_int n < y" using cn by linarith
    then have ygt: "2 ^ ilog2 n < y" using b1 by linarith
    have xy: "x = 1 / y" using assms by (simp add: y_def)
    have p1: "(2::real) powi expo x = 1 / 2 ^ Suc (ilog2 n)"
    proof -
      have "expo x = - int (Suc (ilog2 n))" by (simp add: e)
      then show ?thesis by (simp only: power_int_minus_divide power_int_of_nat)
    qed
    have p2: "(2::real) powi (expo x + 1) = 1 / 2 ^ ilog2 n"
    proof -
      have "expo x + 1 = - int (ilog2 n)" by (simp add: e)
      then show ?thesis by (simp only: power_int_minus_divide power_int_of_nat)
    qed
    have "1 / 2 ^ Suc (ilog2 n) \<le> 1 / y"
      using yle y1 by (intro divide_left_mono) simp_all
    then have lo: "2 powi expo x \<le> x" using p1 xy by linarith
    have "1 / y < 1 / 2 ^ ilog2 n"
      using ygt y1 by (intro divide_strict_left_mono) simp_all
    then have "x < 2 powi (expo x + 1)" using p2 xy by linarith
    with lo show ?thesis by simp
  qed
  then show "2 powi expo x \<le> x" and "x < 2 powi (expo x + 1)" by simp_all
qed

lemma expo_unique:
  assumes "2 powi e \<le> x" and "x < 2 powi (e + 1)"
  shows "expo x = e"
proof -
  have "(0::real) < 2 powi e" by simp
  then have pos: "0 < x" using assms(1) by linarith
  note b = expo_bounds [OF pos]
  have "\<not> expo x + 1 \<le> e"
  proof
    assume "expo x + 1 \<le> e"
    then have "(2::real) powi (expo x + 1) \<le> 2 powi e" by (intro power_int_increasing) simp_all
    then show False using assms(1) b(2) by linarith
  qed
  moreover have "\<not> e + 1 \<le> expo x"
  proof
    assume "e + 1 \<le> expo x"
    then have "(2::real) powi (e + 1) \<le> 2 powi expo x" by (intro power_int_increasing) simp_all
    then show False using assms(2) b(1) by linarith
  qed
  ultimately show ?thesis by simp
qed

lemma powi_split: "(2::real) powi e = 2 powi (e - 52) * 2 ^ 52"
proof -
  have "(2::real) powi (e - 52 + 52) = 2 powi (e - 52) * 2 powi 52"
    by (rule power_int_add) simp
  then show ?thesis by simp
qed

lemma scaled_bounds:
  assumes "0 < x"
  shows "2 ^ 52 \<le> x / 2 powi (expo x - 52)" and "x / 2 powi (expo x - 52) < 2 ^ 53"
proof -
  have p: "(0::real) < 2 powi (expo x - 52)" by simp
  have "2 powi (expo x - 52) * 2 ^ 52 \<le> x"
    using expo_bounds(1) [OF assms] powi_split [of "expo x"] by simp
  then show "2 ^ 52 \<le> x / 2 powi (expo x - 52)"
    using p by (simp add: pos_le_divide_eq mult.commute)
  have "x < 2 powi (expo x + 1 - 52) * 2 ^ 52"
    using expo_bounds(2) [OF assms] powi_split [of "expo x + 1"] by simp
  moreover have "(2::real) powi (expo x + 1 - 52) = 2 powi (expo x - 52) * 2"
  proof -
    have "(2::real) powi (expo x - 52 + 1) = 2 powi (expo x - 52) * 2 powi 1"
      by (rule power_int_add) simp
    moreover have "expo x + 1 - 52 = expo x - 52 + 1" by simp
    ultimately show ?thesis by simp
  qed
  ultimately have "x < 2 powi (expo x - 52) * 2 ^ 53" by simp
  then show "x / 2 powi (expo x - 52) < 2 ^ 53"
    using p by (simp add: pos_divide_less_eq mult.commute)
qed

lemma round_even_of_int: "round_even (of_int n) = n"
  by (simp add: round_even_def)

lemma round_even_cases: "round_even s = \<lfloor>s\<rfloor> \<or> round_even s = \<lfloor>s\<rfloor> + 1"
  by (simp add: round_even_def Let_def)

lemma round_even_error: "\<bar>of_int (round_even s) - s\<bar> \<le> 1 / 2"
proof -
  have "of_int \<lfloor>s\<rfloor> \<le> s" "s < of_int \<lfloor>s\<rfloor> + 1" by linarith+
  then show ?thesis
    by (auto simp add: round_even_def Let_def)
qed

lemma round_even_mono:
  assumes "s \<le> t"
  shows "round_even s \<le> round_even t"
proof (cases "\<lfloor>s\<rfloor> = \<lfloor>t\<rfloor>")
  case True
  have "s - of_int \<lfloor>t\<rfloor> \<le> t - of_int \<lfloor>t\<rfloor>" using assms by simp
  then show ?thesis
    using True by (auto simp add: round_even_def Let_def)
next
  case False
  have "\<lfloor>s\<rfloor> \<le> \<lfloor>t\<rfloor>" using assms by (rule floor_mono)
  then have "\<lfloor>s\<rfloor> + 1 \<le> \<lfloor>t\<rfloor>" using False by simp
  then show ?thesis
    using round_even_cases [of s] round_even_cases [of t] by auto
qed

lemma round_even_range:
  assumes "of_int a \<le> s" and "s \<le> of_int b"
  shows "a \<le> round_even s" and "round_even s \<le> b"
  using round_even_mono [OF assms(1)] round_even_mono [OF assms(2)]
  by (simp_all add: round_even_of_int)

lemma binary64_pos:
  assumes "0 < x"
  shows "binary64 x = of_int (round_even (x / 2 powi (expo x - 52))) * 2 powi (expo x - 52)"
  using assms by (simp add: binary64_def Let_def)

lemma binary64_minus: "binary64 (- x) = - binary64 x"
  by (simp add: binary64_def Let_def sgn_minus)

lemma binary64_zero: "binary64 0 = 0"
  by (simp add: binary64_def)

lemma mantissa_range:
  assumes "0 < x"
  shows "2 ^ 52 \<le> round_even (x / 2 powi (expo x - 52))"
    and "round_even (x / 2 powi (expo x - 52)) \<le> 2 ^ 53"
proof -
  have "of_int (2 ^ 52) \<le> x / 2 powi (expo x - 52)"
    and "x / 2 powi (expo x - 52) \<le> of_int (2 ^ 53)"
    using scaled_bounds [OF assms] by simp_all
  then show "2 ^ 52 \<le> round_even (x / 2 powi (expo x - 52))"
    and "round_even (x / 2 powi (expo x - 52)) \<le> 2 ^ 53"
    by (rule round_even_range)+
qed

lemma binary64_exact_pos:
  assumes "0 < x" and "x = of_int m * 2 powi q" and "m \<le> 2 ^ 53"
  shows "binary64 x = x"
proof -
  let ?q = "expo x - 52"
  let ?s = "x / 2 powi ?q"
  have sb: "2 ^ 52 \<le> ?s" "?s < 2 ^ 53" using scaled_bounds [OF assms(1)] .
  have mpos: "0 < m"
  proof (rule ccontr)
    assume "\<not> 0 < m"
    then have "of_int m \<le> (0::real)" by simp
    then have "of_int m * 2 powi q \<le> (0::real)" by (simp add: mult_le_0_iff)
    then show False using assms(1,2) by simp
  qed
  have "\<exists>k. ?s = of_int k"
  proof (cases "?q \<le> q")
    case True
    have "?s = of_int m * (2 powi q / 2 powi ?q)" using assms(2) by simp
    also have "2 powi q / 2 powi ?q = (2::real) powi (q - ?q)"
      by (simp add: power_int_diff)
    also have "\<dots> = 2 ^ nat (q - ?q)" using True by (simp add: power_int_def)
    finally have "?s = of_int (m * 2 ^ nat (q - ?q))" by simp
    then show ?thesis by blast
  next
    case False
    then have "q - ?q \<le> - 1" by simp
    then have "(2::real) powi (q - ?q) \<le> 2 powi (- 1)" by (intro power_int_increasing) simp_all
    then have half: "(2::real) powi (q - ?q) \<le> 1 / 2" by (simp add: power_int_minus_divide)
    have "?s = of_int m * (2 powi q / 2 powi ?q)" using assms(2) by simp
    also have "2 powi q / 2 powi ?q = (2::real) powi (q - ?q)"
      by (simp add: power_int_diff)
    finally have seq: "?s = of_int m * 2 powi (q - ?q)" .
    have "of_int m * 2 powi (q - ?q) \<le> of_int m * (1 / 2 :: real)"
      using half mpos by (intro mult_left_mono) simp_all
    also have "\<dots> \<le> 2 ^ 53 * (1 / 2)"
    proof -
      have "(of_int m :: real) \<le> of_int (2 ^ 53)" using assms(3) by (simp only: of_int_le_iff)
      then show ?thesis by simp
    qed
    finally have "?s \<le> 2 ^ 52" using seq by simp
    with sb(1) have "?s = of_int (2 ^ 52)" by simp
    then show ?thesis by blast
  qed
  then obtain k where k: "?s = of_int k" ..
  have "binary64 x = of_int (round_even ?s) * 2 powi ?q"
    using assms(1) by (rule binary64_pos)
  also have "\<dots> = ?s * 2 powi ?q" by (simp only: k round_even_of_int)
  also have "\<dots> = x" by simp
  finally show ?thesis .
qed

lemma binary64_exact:
  assumes "x = of_int m * 2 powi q" and "\<bar>m\<bar> \<le> 2 ^ 53"
  shows "binary64 x = x"
proof -
  consider "x = 0" | "0 < x" | "x < 0" by linarith
  then show ?thesis
  proof cases
    case 1
    then show ?thesis by (simp add: binary64_zero)
  next
    case 2
    moreover have "m \<le> 2 ^ 53" using assms(2) by simp
    ultimately show ?thesis using assms(1) by (intro binary64_exact_pos)
  next
    case 3
    then have "0 < - x" by simp
    moreover have "- x = of_int (- m) * 2 powi q" using assms(1) by simp
    moreover have "- m \<le> 2 ^ 53" using assms(2) by simp
    ultimately have "binary64 (- x) = - x" by (rule binary64_exact_pos)
    then show ?thesis by (simp add: binary64_minus)
  qed
qed

lemma binary64_of_int:
  assumes "\<bar>m\<bar> \<le> 2 ^ 53"
  shows "binary64 (of_int m) = of_int m"
  using assms by (intro binary64_exact [where q = 0]) simp_all

lemma binary64_pos_gt:
  assumes "0 < x"
  shows "0 < binary64 x"
proof -
  have "0 < round_even (x / 2 powi (expo x - 52))"
  proof -
    have "(0::int) < 2 ^ 52" by simp
    then show ?thesis using mantissa_range(1) [OF assms] by linarith
  qed
  then show ?thesis
    by (simp add: binary64_pos [OF assms])
qed

lemma binary64_idem: "binary64 (binary64 x) = binary64 x"
proof -
  have pos: "binary64 (binary64 y) = binary64 y" if "0 < y" for y
  proof -
    have "binary64 y = of_int (round_even (y / 2 powi (expo y - 52))) * 2 powi (expo y - 52)"
      using that by (rule binary64_pos)
    moreover have "round_even (y / 2 powi (expo y - 52)) \<le> 2 ^ 53"
      using that by (rule mantissa_range)
    ultimately show ?thesis
      using binary64_pos_gt [OF that] by (intro binary64_exact_pos)
  qed
  consider "x = 0" | "0 < x" | "x < 0" by linarith
  then show ?thesis
  proof cases
    case 1
    then show ?thesis by (simp add: binary64_zero)
  next
    case 2
    then show ?thesis by (rule pos)
  next
    case 3
    then have "binary64 (binary64 (- x)) = binary64 (- x)" by (intro pos) simp
    then show ?thesis by (simp add: binary64_minus)
  qed
qed

lemma binary64_error: "\<bar>binary64 x - x\<bar> \<le> \<bar>x\<bar> / 2 ^ 53"
proof -
  have pos: "\<bar>binary64 y - y\<bar> \<le> y / 2 ^ 53" if "0 < y" for y
  proof -
    let ?q = "expo y - 52"
    let ?s = "y / 2 powi ?q"
    have p: "(0::real) < 2 powi ?q" by simp
    have "binary64 y - y = (of_int (round_even ?s) - ?s) * 2 powi ?q"
      by (simp add: binary64_pos [OF that] algebra_simps)
    then have "\<bar>binary64 y - y\<bar> = \<bar>of_int (round_even ?s) - ?s\<bar> * 2 powi ?q"
      by (simp add: abs_mult)
    also have "\<dots> \<le> 1 / 2 * 2 powi ?q"
      using round_even_error [of ?s] by (intro mult_right_mono) simp_all
    also have "\<dots> \<le> y / 2 ^ 53"
    proof -
      have "2 ^ 52 * 2 powi ?q \<le> y"
        using scaled_bounds(1) [OF that] p by (simp add: pos_le_divide_eq)
      then show ?thesis by simp
    qed
    finally show ?thesis .
  qed
  consider "x = 0" | "0 < x" | "x < 0" by linarith
  then show ?thesis
  proof cases
    case 1
    then show ?thesis by (simp add: binary64_zero)
  next
    case 2
    then show ?thesis using pos [of x] by simp
  next
    case 3
    then have "\<bar>binary64 (- x) - (- x)\<bar> \<le> (- x) / 2 ^ 53" by (intro pos) simp
    moreover have "\<bar>binary64 (- x) - (- x)\<bar> = \<bar>binary64 x - x\<bar>"
      by (simp add: binary64_minus)
    ultimately show ?thesis using 3 by simp
  qed
qed

lemma expo_mono:
  assumes "0 < x" and "x \<le> y"
  shows "expo x \<le> expo y"
proof (rule ccontr)
  assume "\<not> expo x \<le> expo y"
  then have "expo y + 1 \<le> expo x" by simp
  then have "(2::real) powi (expo y + 1) \<le> 2 powi expo x" by (intro power_int_increasing) simp_all
  moreover have "y < 2 powi (expo y + 1)" using assms by (intro expo_bounds) simp
  moreover have "2 powi expo x \<le> x" using assms(1) by (rule expo_bounds)
  ultimately show False using assms(2) by linarith
qed

lemma binary64_mono:
  assumes "0 \<le> x" and "x \<le> y"
  shows "binary64 x \<le> binary64 y"
proof (cases "x = 0")
  case True
  show ?thesis
  proof (cases "y = 0")
    case True
    with \<open>x = 0\<close> show ?thesis by simp
  next
    case False
    then have "0 < y" using assms True by simp
    then show ?thesis using binary64_pos_gt [of y] True by (simp add: binary64_zero)
  qed
next
  case False
  then have xpos: "0 < x" using assms(1) by simp
  then have ypos: "0 < y" using assms(2) by simp
  let ?qx = "expo x - 52" and ?qy = "expo y - 52"
  have bx: "binary64 x = of_int (round_even (x / 2 powi ?qx)) * 2 powi ?qx"
    using xpos by (rule binary64_pos)
  have by': "binary64 y = of_int (round_even (y / 2 powi ?qy)) * 2 powi ?qy"
    using ypos by (rule binary64_pos)
  show ?thesis
  proof (cases "expo x = expo y")
    case True
    have "x / 2 powi ?qy \<le> y / 2 powi ?qy"
      using assms(2) by (intro divide_right_mono) simp_all
    then have "round_even (x / 2 powi ?qy) \<le> round_even (y / 2 powi ?qy)"
      by (rule round_even_mono)
    then have "(of_int (round_even (x / 2 powi ?qy)) :: real) \<le> of_int (round_even (y / 2 powi ?qy))"
      by (simp only: of_int_le_iff)
    then have "of_int (round_even (x / 2 powi ?qy)) * 2 powi ?qy
        \<le> of_int (round_even (y / 2 powi ?qy)) * (2::real) powi ?qy"
      by (intro mult_right_mono) simp_all
    then show ?thesis using bx by' True by simp
  next
    case False
    then have lt: "expo x + 1 \<le> expo y" using expo_mono [OF xpos assms(2)] by simp
    have "(of_int (round_even (x / 2 powi ?qx)) :: real) \<le> of_int (2 ^ 53)"
      using mantissa_range(2) [OF xpos] by (simp only: of_int_le_iff)
    then have "binary64 x \<le> 2 ^ 53 * 2 powi ?qx"
      using bx by (simp add: mult_right_mono)
    also have "\<dots> = 2 powi (expo x + 1)"
    proof -
      have "(2::real) powi (expo x + 1) = 2 powi (expo x + 1 - 52) * 2 ^ 52" by (rule powi_split)
      moreover have "(2::real) powi (?qx + 1) = 2 powi ?qx * 2 powi 1"
        by (rule power_int_add) simp
      moreover have "expo x + 1 - 52 = ?qx + 1" by simp
      ultimately show ?thesis by simp
    qed
    also have "\<dots> \<le> 2 powi expo y" using lt by (intro power_int_increasing) simp_all
    also have "\<dots> = 2 ^ 52 * 2 powi ?qy" using powi_split [of "expo y"] by simp
    also have "\<dots> \<le> binary64 y"
    proof -
      have "(of_int (2 ^ 52) :: real) \<le> of_int (round_even (y / 2 powi ?qy))"
        using mantissa_range(1) [OF ypos] by (simp only: of_int_le_iff)
      then show ?thesis using by' by (simp add: mult_right_mono)
    qed
    finally show ?thesis .
  qed
qed

lemmas binary64_eval =
  binary64_def expo_def ilog2.simps round_even_def Let_def power_int_minus_divide

lemma binary64_repr:
  assumes "0 < x" and "binary64 x = x"
  shows "\<exists>m q. x = of_int m * 2 powi q \<and> 0 < m \<and> m \<le> 2 ^ 53"
proof -
  let ?m = "round_even (x / 2 powi (expo x - 52))"
  have "x = of_int ?m * 2 powi (expo x - 52)"
    using binary64_pos [OF assms(1)] assms(2) by simp
  moreover have "?m \<le> 2 ^ 53" using assms(1) by (rule mantissa_range)
  moreover have "0 < ?m"
  proof -
    have "(0::int) < 2 ^ 52" by simp
    then show ?thesis using mantissa_range(1) [OF assms(1)] by linarith
  qed
  ultimately show ?thesis by blast
qed

lemma binary64_sub_exact:
  assumes "binary64 x = x" and "0 < c" and "of_int c \<le> x" and "x - of_int c \<le> 2 ^ 53"
  shows "binary64 (x - of_int c) = x - of_int c"
proof -
  have "(0::real) < of_int c" using assms(2) by simp
  then have xpos: "0 < x" using assms(3) by linarith
  from binary64_repr [OF xpos assms(1)] obtain m q
    where x: "x = of_int m * 2 powi q" and m: "0 < m" "m \<le> 2 ^ 53" by blast
  show ?thesis
  proof (cases "0 \<le> q")
    case True
    then have "(2::real) powi q = of_int (2 ^ nat q)" by (simp add: power_int_def)
    then have "x - of_int c = of_int (m * 2 ^ nat q - c)" using x by simp
    moreover from this have "\<bar>m * 2 ^ nat q - c\<bar> \<le> 2 ^ 53"
    proof -
      assume e: "x - of_int c = of_int (m * 2 ^ nat q - c)"
      have "(0::real) \<le> of_int (m * 2 ^ nat q - c)" using assms(3) e by linarith
      then have lo: "0 \<le> m * 2 ^ nat q - c" by (simp only: of_int_0_le_iff)
      have "(of_int (m * 2 ^ nat q - c) :: real) \<le> of_int (2 ^ 53)" using assms(4) e by simp
      then have "m * 2 ^ nat q - c \<le> 2 ^ 53" by (simp only: of_int_le_iff)
      with lo show ?thesis by simp
    qed
    ultimately show ?thesis by (simp only: binary64_of_int)
  next
    case False
    then have qn: "- q = int (nat (- q))" by simp
    have "(2::real) powi q * 2 powi (- q) = 2 powi (q + - q)"
      by (rule power_int_add [symmetric]) simp
    then have inv: "(2::real) powi q * 2 ^ nat (- q) = 1"
      using qn by (metis add.right_inverse power_int_0_right power_int_of_nat)
    have "x - of_int c = of_int m * 2 powi q - of_int c * (2 powi q * 2 ^ nat (- q))"
      using x inv by simp
    also have "\<dots> = of_int (m - c * 2 ^ nat (- q)) * 2 powi q"
      by (simp add: algebra_simps)
    finally have e: "x - of_int c = of_int (m - c * 2 ^ nat (- q)) * 2 powi q" .
    have "0 \<le> m - c * 2 ^ nat (- q)"
    proof (rule ccontr)
      assume "\<not> 0 \<le> m - c * 2 ^ nat (- q)"
      then have "m - c * 2 ^ nat (- q) < 0" by simp
      then have "(of_int (m - c * 2 ^ nat (- q)) :: real) < 0" by (simp only: of_int_less_0_iff)
      then have "of_int (m - c * 2 ^ nat (- q)) * (2::real) powi q < 0"
        by (simp add: mult_less_0_iff)
      then show False using e assms(3) by linarith
    qed
    moreover have "m - c * 2 ^ nat (- q) \<le> m" using assms(2) by simp
    ultimately have "\<bar>m - c * 2 ^ nat (- q)\<bar> \<le> 2 ^ 53" using m(2) by simp
    with e show ?thesis by (intro binary64_exact)
  qed
qed

section \<open>Properties of the slab loop\<close>

lemma capacities:
  "capacity \<lparr>sfrom = 0, sto = Finite 100, srate = 0\<rparr> = Finite 101"
  "capacity \<lparr>sfrom = 101, sto = Finite 200, srate = 9 / 4\<rparr> = Finite 100"
  "capacity \<lparr>sfrom = 201, sto = Finite 500, srate = 9 / 2\<rparr> = Finite 300"
  "capacity \<lparr>sfrom = 501, sto = Finite 1000, srate = 6\<rparr> = Finite 500"
  "capacity \<lparr>sfrom = 1001, sto = PosInfinity, srate = 8\<rparr> = PosInfinity"
  by (simp_all add: capacity_def binary64_eval)

lemma slabs_cap_pos: "list_all cap_pos slabs"
  by (simp add: slabs_def cap_pos_def capacities)

lemma slabs_cap_whole: "list_all cap_whole slabs"
  by (simp add: slabs_def cap_whole_def capacities)

lemma slabs_rate_nonneg: "list_all (\<lambda>s. 0 \<le> srate s) slabs"
  by (simp add: slabs_def)

lemma math_min_pos: "0 < r \<Longrightarrow> cap_pos s \<Longrightarrow> 0 < math_min r (capacity s)"
  by (cases "capacity s") (simp_all add: cap_pos_def)

lemma math_min_le: "math_min r c \<le> r"
  by (cases c) simp_all

lemma bill_of_150:
  "bill_of 150 =
     \<lparr>units = 150, total_amount = 441 / 4,
      breakup =
        [\<lparr>rfrom = 0, rto = To 100, runits = 101, rrate = 0, ramount = 0\<rparr>,
         \<lparr>rfrom = 101, rto = To 200, runits = 49, rrate = 9 / 4, ramount = 441 / 4\<rparr>]\<rparr>"
  by (simp add: bill_of_def slabs_def capacities toFixed2_def binary64_eval)

lemma slab_loop_zero: "slab_loop ss 0 t rows = (t, rows)"
  by (cases ss) simp_all

lemma capacity_infinite: "sto s = PosInfinity \<Longrightarrow> capacity s = PosInfinity"
  by (simp add: capacity_def)

lemma slab_loop_units_sum:
  assumes "ss \<noteq> []" and "sto (last ss) = PosInfinity" and "list_all cap_whole ss"
    and "binary64 r = r" and "0 \<le> r"
    and "\<forall>c. capacity (hd ss) = Finite c \<longrightarrow> r - c \<le> 2 ^ 53"
  shows "sum_list (map runits (snd (slab_loop ss r t rows))) = sum_list (map runits rows) + r"
  using assms
proof (induction ss arbitrary: r t rows)
  case Nil
  then show ?case by simp
next
  case (Cons s rest)
  show ?case
  proof (cases "r \<le> 0")
    case True
    with Cons.prems show ?thesis by simp
  next
    case False
    then have rpos: "0 < r" by simp
    show ?thesis
    proof (cases "math_min r (capacity s) = r")
      case True
      then show ?thesis
        using False by (simp add: Let_def binary64_zero slab_loop_zero)
    next
      case partial: False
      then obtain c where c: "capacity s = Finite c" and lt: "c < r"
        by (cases "capacity s") (auto simp add: min_def split: if_splits)
      have "cap_whole s" using Cons.prems(3) by simp
      then have whole: "0 < c" "of_int \<lfloor>c\<rfloor> = c"
        unfolding cap_whole_def c by simp_all
      have fit: "r - c \<le> 2 ^ 53" using Cons.prems(6) c by simp
      have "binary64 (r - of_int \<lfloor>c\<rfloor>) = r - of_int \<lfloor>c\<rfloor>"
      proof (rule binary64_sub_exact)
        show "binary64 r = r" by (rule Cons.prems(4))
        show "0 < \<lfloor>c\<rfloor>" using whole by linarith
        show "of_int \<lfloor>c\<rfloor> \<le> r" using whole(2) lt by linarith
        show "r - of_int \<lfloor>c\<rfloor> \<le> 2 ^ 53" using whole(2) fit by linarith
      qed
      then have exact: "binary64 (r - c) = r - c" by (simp only: whole(2))
      have nonempty: "rest \<noteq> []"
      proof
        assume "rest = []"
        then have "sto s = PosInfinity" using Cons.prems(2) by simp
        then show False using c by (simp add: capacity_infinite)
      qed
      have "sum_list (map runits (snd (slab_loop rest (r - c) t' rows'))) =
          sum_list (map runits rows') + (r - c)" for t' rows'
      proof (rule Cons.IH)
        show "rest \<noteq> []" by (rule nonempty)
        show "sto (last rest) = PosInfinity" using Cons.prems(2) nonempty by simp
        show "list_all cap_whole rest" using Cons.prems(3) by simp
        show "binary64 (r - c) = r - c" using exact binary64_idem [of "r - c"] by simp
        show "0 \<le> r - c" using lt by simp
        show "\<forall>c'. capacity (hd rest) = Finite c' \<longrightarrow> r - c - c' \<le> 2 ^ 53"
        proof (intro allI impI)
          fix c'
          assume "capacity (hd rest) = Finite c'"
          moreover have "cap_whole (hd rest)"
            using Cons.prems(3) nonempty by (cases rest) simp_all
          ultimately have "0 < c'" by (simp add: cap_whole_def)
          then show "r - c - c' \<le> 2 ^ 53" using fit by linarith
        qed
      qed
      then show ?thesis
        using False c lt exact by (simp add: Let_def min_def)
    qed
  qed
qed

lemma slab_loop_rows_pos:
  assumes "list_all cap_pos ss" and "list_all (\<lambda>w. 0 < runits w) rows"
  shows "list_all (\<lambda>w. 0 < runits w) (snd (slab_loop ss r t rows))"
  using assms
proof (induction ss arbitrary: r t rows)
  case Nil
  then show ?case by simp
next
  case (Cons s rest)
  then show ?case
    by (cases "r \<le> 0") (simp_all add: Let_def math_min_pos)
qed

lemma slab_loop_rows_amount:
  assumes "list_all (\<lambda>w. ramount w = toFixed2 (binary64 (runits w * rrate w))) rows"
  shows "list_all (\<lambda>w. ramount w = toFixed2 (binary64 (runits w * rrate w)))
    (snd (slab_loop ss r t rows))"
  using assms
proof (induction ss arbitrary: r t rows)
  case Nil
  then show ?case by simp
next
  case (Cons s rest)
  then show ?case
    by (cases "r \<le> 0") (simp_all add: Let_def)
qed

lemma slab_loop_total_ge:
  assumes "list_all cap_pos ss" and "list_all (\<lambda>s. 0 \<le> srate s) ss"
    and "binary64 t = t" and "0 \<le> t"
  shows "t \<le> fst (slab_loop ss r t rows)"
  using assms
proof (induction ss arbitrary: r t rows)
  case Nil
  then show ?case by simp
next
  case (Cons s rest)
  show ?case
  proof (cases "r \<le> 0")
    case True
    then show ?thesis by simp
  next
    case False
    let ?a = "binary64 (math_min r (capacity s) * srate s)"
    have "0 < math_min r (capacity s)"
      using False Cons.prems by (simp add: math_min_pos)
    then have "0 \<le> math_min r (capacity s) * srate s"
      using Cons.prems by simp
    then have a: "0 \<le> ?a"
      using binary64_mono [of 0 "math_min r (capacity s) * srate s"] by (simp add: binary64_zero)
    have step: "t \<le> binary64 (t + ?a)"
      using binary64_mono [of t "t + ?a"] a Cons.prems(3,4) by simp
    have "binary64 (t + ?a) \<le> fst (slab_loop rest r' (binary64 (t + ?a)) rows')" for r' rows'
      using Cons.prems step by (intro Cons.IH) (simp_all add: binary64_idem)
    then show ?thesis
      using False step by (simp add: Let_def) (meson order_trans)
  qed
qed

lemma math_min_mono:
  assumes "r1 \<le> r2"
  shows "math_min r1 c \<le> math_min r2 c"
    and "r1 - math_min r1 c \<le> r2 - math_min r2 c"
  using assms by (cases c; simp add: min_def)+

lemma slab_loop_total_mono:
  assumes "list_all cap_pos ss" and "list_all (\<lambda>s. 0 \<le> srate s) ss"
    and "r1 \<le> r2" and "t1 \<le> t2" and "0 \<le> t1" and "binary64 t2 = t2"
  shows "fst (slab_loop ss r1 t1 rows1) \<le> fst (slab_loop ss r2 t2 rows2)"
  using assms
proof (induction ss arbitrary: r1 r2 t1 t2 rows1 rows2)
  case Nil
  then show ?case by simp
next
  case (Cons s rest)
  let ?m1 = "math_min r1 (capacity s)" and ?m2 = "math_min r2 (capacity s)"
  let ?a1 = "binary64 (?m1 * srate s)" and ?a2 = "binary64 (?m2 * srate s)"
  have caps: "list_all cap_pos rest" and rates: "list_all (\<lambda>s. 0 \<le> srate s) rest"
    and rate: "0 \<le> srate s" and cap: "cap_pos s"
    using Cons.prems by simp_all
  have t2: "0 \<le> t2" using Cons.prems(4,5) by simp
  show ?case
  proof (cases "r2 \<le> 0")
    case True
    with Cons.prems show ?thesis by simp
  next
    case r2: False
    then have "0 < ?m2" using cap by (simp add: math_min_pos)
    then have "0 \<le> ?m2 * srate s" using rate by simp
    then have a2: "0 \<le> ?a2"
      using binary64_mono [of 0 "?m2 * srate s"] by (simp add: binary64_zero)
    have step2: "t2 \<le> binary64 (t2 + ?a2)"
      using binary64_mono [of t2 "t2 + ?a2"] a2 t2 Cons.prems(6) by simp
    show ?thesis
    proof (cases "r1 \<le> 0")
      case True
      have "binary64 (t2 + ?a2) \<le> fst (slab_loop rest r' (binary64 (t2 + ?a2)) rows)" for r' rows
        using caps rates step2 t2 by (intro slab_loop_total_ge) (simp_all add: binary64_idem)
      then have "t1 \<le> fst (slab_loop rest r' (binary64 (t2 + ?a2)) rows)" for r' rows
        using step2 Cons.prems(4) by (meson order_trans)
      then show ?thesis
        using True r2 by (simp add: Let_def)
    next
      case r1: False
      then have "0 < ?m1" using cap by (simp add: math_min_pos)
      then have m1: "0 \<le> ?m1 * srate s" using rate by simp
      have "?m1 * srate s \<le> ?m2 * srate s"
        using math_min_mono(1) [OF Cons.prems(3)] rate by (simp add: mult_right_mono)
      then have a12: "?a1 \<le> ?a2" using m1 by (intro binary64_mono)
      have a1: "0 \<le> ?a1"
        using binary64_mono [of 0 "?m1 * srate s"] m1 by (simp add: binary64_zero)
      have tt: "binary64 (t1 + ?a1) \<le> binary64 (t2 + ?a2)"
        using a12 a1 Cons.prems(4,5) by (intro binary64_mono) simp_all
      have t1': "0 \<le> binary64 (t1 + ?a1)"
        using binary64_mono [of 0 "t1 + ?a1"] a1 Cons.prems(5) by (simp add: binary64_zero)
      have "0 \<le> r1 - ?m1" using math_min_le [of r1 "capacity s"] by simp
      then have rr: "binary64 (r1 - ?m1) \<le> binary64 (r2 - ?m2)"
        using math_min_mono(2) [OF Cons.prems(3)] by (intro binary64_mono)
      have "fst (slab_loop rest (binary64 (r1 - ?m1)) (binary64 (t1 + ?a1)) ra)
          \<le> fst (slab_loop rest (binary64 (r2 - ?m2)) (binary64 (t2 + ?a2)) rb)" for ra rb
        using caps rates rr tt t1' by (intro Cons.IH) (simp_all add: binary64_idem)
      then show ?thesis
        using r1 r2 by (simp add: Let_def)
    qed
  qed
qed

lemma toFixed2_mono:
  assumes "x \<le> y"
  shows "toFixed2 x \<le> toFixed2 y"
proof -
  consider "y < 0" | "x < 0" "0 \<le> y" | "0 \<le> x"
    by linarith
  then show ?thesis
  proof cases
    case 1
    then have "x < 0" using assms by simp
    moreover have "\<lfloor>- y * 100 + 1 / 2\<rfloor> \<le> \<lfloor>- x * 100 + 1 / 2\<rfloor>"
      using assms by (intro floor_mono) simp
    ultimately show ?thesis
      using 1 by (simp add: toFixed2_def divide_right_mono)
  next
    case 2
    have "0 \<le> \<lfloor>- x * 100 + 1 / 2\<rfloor>" using 2 by simp
    then have "toFixed2 x \<le> 0"
      using 2 by (simp add: toFixed2_def)
    moreover have "0 \<le> \<lfloor>y * 100 + 1 / 2\<rfloor>" using 2 by simp
    then have "0 \<le> toFixed2 y"
      using 2 by (simp add: toFixed2_def)
    ultimately show ?thesis by linarith
  next
    case 3
    then have "0 \<le> y" using assms by simp
    moreover have "\<lfloor>x * 100 + 1 / 2\<rfloor> \<le> \<lfloor>y * 100 + 1 / 2\<rfloor>"
      using assms by (intro floor_mono) simp
    ultimately show ?thesis
      using 3 by (simp add: toFixed2_def divide_right_mono)
  qed
qed

lemma slabs_last: "slabs \<noteq> [] \<and> sto (last slabs) = PosInfinity"
  by (simp add: slabs_def)

lemma slabs_head: "capacity (hd slabs) = Finite 101"
  by (simp add: slabs_def capacities)

section \<open>The tariff claims\<close>

text \<open>
  C1. The scenario of 150 units. The handler of QuantumCalculator stores a bill of
  110.25, not 112.50: the first slab takes \<open>100 - 0 + 1 = 101\<close> units at rate 0 and the
  second slab the remaining 49 units at 2.25.
\<close>

theorem calculateBill_150:
  "result (QuantumCalculator_calculateBill (Fin 150) st) =
     Some \<lparr>units = 150, total_amount = 441 / 4,
       breakup =
         [\<lparr>rfrom = 0, rto = To 100, runits = 101, rrate = 0, ramount = 0\<rparr>,
          \<lparr>rfrom = 101, rto = To 200, runits = 49, rrate = 9 / 4, ramount = 441 / 4\<rparr>]\<rparr>
   \<and> total_amount (bill_of 150) \<noteq> 225 / 2"
  by (simp add: bill_of_150)

text \<open>
  C2, as the spec states it, fails for large inputs and for the amounts. At \<open>10 ^ 17\<close>
  units, itself a binary64 number, the subtractions of the loop are rounded, and the
  units of the five rows sum to \<open>10 ^ 17 + 9\<close>; the smallest input where the sum fails
  is \<open>2 ^ 53 + 102\<close>, the binary64 number after \<open>2 ^ 53 + 100\<close>, where the rows sum to
  \<open>2 ^ 53 + 101\<close>. At 116.14 units (the binary64 number nearest to it) the second row
  consumes 15.14 units and a little more, and its amount is 34.06, while the product of
  its units and its rate, rounded to two decimals, is 34.07: the product is rounded by
  the machine before \<open>toFixed\<close> sees it.
\<close>

theorem units_sum_counterexample:
  "binary64 100000000000000000 = 100000000000000000
   \<and> map runits (breakup (bill_of 100000000000000000))
      = [101, 100, 300, 500, 99999999999999008]
   \<and> sum_list (map runits (breakup (bill_of 100000000000000000))) \<noteq> 100000000000000000
   \<and> result (QuantumCalculator_calculateBill (Fin 100000000000000000)
        \<lparr>result = None, isCalculating = False\<rparr>)
      = Some (bill_of 100000000000000000)
   \<and> binary64 9007199254741094 = 9007199254741094
   \<and> sum_list (map runits (breakup (bill_of 9007199254741094))) = 9007199254741093
   \<and> binary64 (8172625948793897 / 70368744177664) = 8172625948793897 / 70368744177664
   \<and> breakup (bill_of (8172625948793897 / 70368744177664))
        = [\<lparr>rfrom = 0, rto = To 100, runits = 101, rrate = 0, ramount = 0\<rparr>,
           \<lparr>rfrom = 101, rto = To 200, runits = 1065382786849833 / 70368744177664,
             rrate = 9 / 4, ramount = 1703 / 50\<rparr>]
   \<and> toFixed2 (1065382786849833 / 70368744177664 * (9 / 4)) = 3407 / 100"
  by (simp add: bill_of_def slabs_def capacities toFixed2_def binary64_eval)

text \<open>
  C2, amended. For every units value \<open>u\<close> with \<open>0 \<le> u \<le> 2 ^ 53 + 101\<close> (a binary64
  number, as every parsed input is) the slab walk partitions the input exactly: the
  units of the emitted rows sum to \<open>u\<close>, no emitted row has zero consumed units, and the
  amount of each row is the machine product of its units and its rate, rounded to two
  decimals by \<open>toFixed(2)\<close>. For \<open>u > 0\<close> this result is the one the handler stores.
\<close>

theorem bill_partition:
  assumes "0 \<le> u" and "u \<le> 2 ^ 53 + 101" and "binary64 u = u"
  shows "sum_list (map runits (breakup (bill_of u))) = u
    \<and> list_all (\<lambda>w. 0 < runits w) (breakup (bill_of u))
    \<and> list_all (\<lambda>w. ramount w = toFixed2 (binary64 (runits w * rrate w))) (breakup (bill_of u))
    \<and> (0 < u \<longrightarrow> result (QuantumCalculator_calculateBill (Fin u) st) = Some (bill_of u))"
proof -
  have rows: "breakup (bill_of u) = snd (slab_loop slabs u 0 [])"
    by (simp add: bill_of_def split: prod.split)
  have "sum_list (map runits (snd (slab_loop slabs u 0 []))) = sum_list (map runits ([] :: row list)) + u"
  proof (rule slab_loop_units_sum)
    show "slabs \<noteq> []" and "sto (last slabs) = PosInfinity" using slabs_last by simp_all
    show "list_all cap_whole slabs" by (rule slabs_cap_whole)
    show "binary64 u = u" and "0 \<le> u" by (rule assms)+
    show "\<forall>c. capacity (hd slabs) = Finite c \<longrightarrow> u - c \<le> 2 ^ 53"
      using assms(2) by (simp add: slabs_head)
  qed
  moreover have "list_all (\<lambda>w. 0 < runits w) (snd (slab_loop slabs u 0 []))"
    using slabs_cap_pos by (rule slab_loop_rows_pos) simp
  moreover have "list_all (\<lambda>w. ramount w = toFixed2 (binary64 (runits w * rrate w)))
      (snd (slab_loop slabs u 0 []))"
    by (rule slab_loop_rows_amount) simp
  ultimately show ?thesis
    by (simp add: rows)
qed

theorem bill_partition_witness:
  "(0::real) \<le> 8172625948793897 / 70368744177664
    \<and> (8172625948793897 / 70368744177664 :: real) \<le> 2 ^ 53 + 101
    \<and> binary64 (8172625948793897 / 70368744177664) = 8172625948793897 / 70368744177664
    \<and> sum_list (map runits (breakup (bill_of (8172625948793897 / 70368744177664))))
        = 8172625948793897 / 70368744177664
    \<and> breakup (bill_of (8172625948793897 / 70368744177664))
        = [\<lparr>rfrom = 0, rto = To 100, runits = 101, rrate = 0, ramount = 0\<rparr>,
           \<lparr>rfrom = 101, rto = To 200, runits = 1065382786849833 / 70368744177664,
             rrate = 9 / 4, ramount = 1703 / 50\<rparr>]
    \<and> result (QuantumCalculator_calculateBill (Fin (8172625948793897 / 70368744177664))
          \<lparr>result = None, isCalculating = False\<rparr>)
        = Some (bill_of (8172625948793897 / 70368744177664))"
proof -
  have d: "binary64 (8172625948793897 / 70368744177664) = 8172625948793897 / 70368744177664"
    by (simp add: binary64_eval)
  have rows: "breakup (bill_of (8172625948793897 / 70368744177664))
        = [\<lparr>rfrom = 0, rto = To 100, runits = 101, rrate = 0, ramount = 0\<rparr>,
           \<lparr>rfrom = 101, rto = To 200, runits = 1065382786849833 / 70368744177664,
             rrate = 9 / 4, ramount = 1703 / 50\<rparr>]"
    by (simp add: bill_of_def slabs_def capacities toFixed2_def binary64_eval)
  show ?thesis
    using d rows bill_partition [of "8172625948793897 / 70368744177664"
        "\<lparr>result = None, isCalculating = False\<rparr>"]
    by simp
qed

text \<open>
  C6. The total is monotone in the consumption: for \<open>0 \<le> u1 \<le> u2\<close> the total amount
  of the bill for \<open>u2\<close> is at least the total amount of the bill for \<open>u1\<close>.
\<close>

theorem bill_monotone:
  assumes "0 \<le> u1" and "u1 \<le> u2"
  shows "total_amount (bill_of u1) \<le> total_amount (bill_of u2)"
proof -
  have total: "total_amount (bill_of u) = toFixed2 (fst (slab_loop slabs u 0 []))" for u
    by (simp add: bill_of_def split: prod.split)
  have "fst (slab_loop slabs u1 0 []) \<le> fst (slab_loop slabs u2 0 [])"
    using slabs_cap_pos slabs_rate_nonneg assms(2)
    by (rule slab_loop_total_mono) (simp_all add: binary64_zero)
  then show ?thesis
    by (simp add: total toFixed2_mono)
qed

theorem bill_monotone_witness:
  "(0::real) \<le> 150 \<and> (150::real) \<le> 151 \<and> total_amount (bill_of 150) \<le> total_amount (bill_of 151)"
proof -
  have "total_amount (bill_of 150) \<le> total_amount (bill_of 151)"
    by (rule bill_monotone) simp_all
  then show ?thesis by simp
qed

section \<open>Input guards of the calculators\<close>

text \<open>
  C3, as the spec states it, fails at the input 0: neither handler produces the bill
  with an empty breakup and total 0. QuantumCalculator keeps having no result, and
  BillCalculator reports an input error and stores no bill.
\<close>

theorem zero_units_counterexample:
  "result (QuantumCalculator_calculateBill (Fin 0) \<lparr>result = None, isCalculating = False\<rparr>)
     \<noteq> Some \<lparr>units = 0, total_amount = 0, breakup = []\<rparr>
   \<and> BillCalculator_calculateBill (Fin 0) local_server
       \<lparr>billData = None, isLoading = False, error = []\<rparr>
     = (\<lparr>billData = None, isLoading = False, error = invalid_units_message\<rparr>, [])"
  by simp

text \<open>
  C3, amended. The input 0 produces no bill: QuantumCalculator leaves its result as it
  was, and BillCalculator refuses 0 like a negative or \<open>NaN\<close> input. In BillCalculator
  an input that is zero, negative or \<open>NaN\<close> produces the input error, keeps the stored
  bill, sends no request, whatever the server would answer, and is never clamped to a
  valid value.
\<close>

theorem invalid_units_no_bill:
  assumes "invalid_units input"
  shows "BillCalculator_calculateBill input fetch bst = (bst\<lparr>error := invalid_units_message\<rparr>, [])
    \<and> result (QuantumCalculator_calculateBill (Fin 0) qst) = result qst"
  using assms by (cases input) simp_all

theorem invalid_units_no_bill_witness:
  "invalid_units (Fin (- 5))
   \<and> BillCalculator_calculateBill (Fin (- 5)) local_server
       \<lparr>billData = None, isLoading = False, error = []\<rparr>
     = (\<lparr>billData = None, isLoading = False, error = invalid_units_message\<rparr>, [])
   \<and> result (QuantumCalculator_calculateBill (Fin 0) \<lparr>result = None, isCalculating = False\<rparr>)
     = None"
  using invalid_units_no_bill [of "Fin (- 5)" local_server
      "\<lparr>billData = None, isLoading = False, error = []\<rparr>"
      "\<lparr>result = None, isCalculating = False\<rparr>"]
  by simp

text \<open>
  C10. BillCalculator refuses every units value above 10000 with an input error before
  any request is made: the error message is set, no request is sent, and the stored
  bill is not replaced, whatever the server would answer.
\<close>

theorem units_above_limit_refused:
  assumes "10000 < u"
  shows "BillCalculator_calculateBill (Fin u) fetch st = (st\<lparr>error := too_high_message\<rparr>, [])"
  using assms by simp

theorem units_above_limit_refused_witness:
  "(10000::real) < 10001
   \<and> BillCalculator_calculateBill (Fin 10001) local_server
       \<lparr>billData = None, isLoading = False, error = []\<rparr>
     = (\<lparr>billData = None, isLoading = False, error = too_high_message\<rparr>, [])"
  using units_above_limit_refused [of 10001 local_server
      "\<lparr>billData = None, isLoading = False, error = []\<rparr>"]
  by simp

section \<open>Forecast fallback\<close>

lemma toFixed2_error: "\<bar>toFixed2 z - z\<bar> \<le> 1 / 200"
proof (cases "z < 0")
  case True
  define n where "n = \<lfloor>- z * 100 + 1 / 2\<rfloor>"
  have "of_int n \<le> - z * 100 + 1 / 2" and "- z * 100 + 1 / 2 < of_int n + 1"
    unfolding n_def by linarith+
  moreover have "toFixed2 z = - (of_int n / 100)"
    using True by (simp only: toFixed2_def n_def if_True)
  ultimately show ?thesis by linarith
next
  case False
  define n where "n = \<lfloor>z * 100 + 1 / 2\<rfloor>"
  have "of_int n \<le> z * 100 + 1 / 2" and "z * 100 + 1 / 2 < of_int n + 1"
    unfolding n_def by linarith+
  moreover have "toFixed2 z = of_int n / 100"
    using False by (simp only: toFixed2_def n_def if_False)
  ultimately show ?thesis by linarith
qed

lemma parseInt_bounds: "15 \<le> parseInt period \<and> parseInt period \<le> 365"
  by (cases period) simp_all

lemma binary64_abs_le: "\<bar>binary64 y\<bar> \<le> 2 * \<bar>y\<bar>"
proof -
  have "\<bar>y\<bar> / 2 ^ 53 \<le> \<bar>y\<bar>"
    by (simp add: divide_le_eq) 
  then show ?thesis using binary64_error [of y] by linarith
qed

lemma fit_finite:
  assumes "\<bar>binary64 y\<bar> < 10 ^ 21"
  shows "fit y = DFin (binary64 y)"
proof -
  have "(10::real) ^ 21 \<le> 2 ^ 1024" by simp
  then show ?thesis using assms by (simp add: fit_def Let_def)
qed

lemma daily_finite:
  assumes "\<bar>x\<bar> < 10 ^ 21" and "15 \<le> d"
  shows "\<bar>binary64 (x / d)\<bar> < 10 ^ 21"
proof -
  have "\<bar>x / d\<bar> = \<bar>x\<bar> / d" using assms(2) by simp
  also have "\<dots> \<le> \<bar>x\<bar> / 15" using assms(2) by (intro divide_left_mono) simp_all
  finally have "2 * \<bar>x / d\<bar> \<le> \<bar>x\<bar>" by simp
  then show ?thesis using binary64_abs_le [of "x / d"] assms(1) by linarith
qed

lemma fallback_texts:
  assumes "\<bar>scaled v period\<bar> < 10 ^ 21"
  shows "toFixed (js_times (DFin v) (binary64 (parseInt period / 30)))
      = Decimal (toFixed2 (scaled v period))"
    and "toFixed (js_over (js_times (DFin v) (binary64 (parseInt period / 30))) (parseInt period))
      = Decimal (toFixed2 (binary64 (scaled v period / parseInt period)))"
proof -
  have t: "js_times (DFin v) (binary64 (parseInt period / 30)) = DFin (scaled v period)"
    using assms fit_finite [of "v * binary64 (parseInt period / 30)"] by (simp add: scaled_def)
  show "toFixed (js_times (DFin v) (binary64 (parseInt period / 30)))
      = Decimal (toFixed2 (scaled v period))"
    unfolding t using assms by simp
  have d: "\<bar>binary64 (scaled v period / parseInt period)\<bar> < 10 ^ 21"
    using assms parseInt_bounds [of period] by (intro daily_finite) simp_all
  then have o: "js_over (DFin (scaled v period)) (parseInt period)
      = DFin (binary64 (scaled v period / parseInt period))"
    by (simp add: fit_finite)
  show "toFixed (js_over (js_times (DFin v) (binary64 (parseInt period / 30))) (parseInt period))
      = Decimal (toFixed2 (binary64 (scaled v period / parseInt period)))"
    unfolding t o using d by simp
qed



lemma scaled_error:
  "\<bar>scaled k period - k / 30 * parseInt period\<bar> \<le> \<bar>k * parseInt period / 30\<bar> / 2 ^ 51"
proof -
  define a where "a = parseInt period / 30"
  define m where "m = binary64 a"
  have apos: "0 < a" using parseInt_bounds [of period] by (simp add: a_def)
  have ma: "\<bar>m - a\<bar> \<le> a / 2 ^ 53"
    using binary64_error [of a] apos by (simp add: m_def)
  have "a / 2 ^ 53 \<le> a" using apos by (simp add: divide_le_eq)
  then have m2: "\<bar>m\<bar> \<le> 2 * a" using ma by linarith
  have e1: "\<bar>scaled k period - k * m\<bar> \<le> \<bar>k * m\<bar> / 2 ^ 53"
    using binary64_error [of "k * m"] by (simp add: scaled_def m_def a_def)
  have "\<bar>k * m\<bar> = \<bar>k\<bar> * \<bar>m\<bar>" by (simp add: abs_mult)
  also have "\<dots> \<le> \<bar>k\<bar> * (2 * a)" using m2 by (intro mult_left_mono) simp_all
  finally have "\<bar>k * m\<bar> \<le> \<bar>k\<bar> * (2 * a)" .
  then have "\<bar>k * m\<bar> / 2 ^ 53 \<le> \<bar>k\<bar> * (2 * a) / 2 ^ 53"
    by (rule divide_right_mono) simp
  with e1 have e1': "\<bar>scaled k period - k * m\<bar> \<le> 2 * (\<bar>k\<bar> * a / 2 ^ 53)" by simp
  have "\<bar>k * m - k * a\<bar> = \<bar>k\<bar> * \<bar>m - a\<bar>"
    by (simp add: abs_mult flip: right_diff_distrib)
  also have "\<dots> \<le> \<bar>k\<bar> * (a / 2 ^ 53)" using ma by (intro mult_left_mono) simp_all
  finally have e2: "\<bar>k * m - k * a\<bar> \<le> \<bar>k\<bar> * a / 2 ^ 53" by simp
  have "0 \<le> \<bar>k\<bar> * a / 2 ^ 53" using apos by simp
  with e1' e2 have "\<bar>scaled k period - k * a\<bar> \<le> 4 * (\<bar>k\<bar> * a / 2 ^ 53)" by linarith
  moreover have "4 * (\<bar>k\<bar> * a / 2 ^ 53) = \<bar>k * parseInt period / 30\<bar> / 2 ^ 51"
    using apos by (simp add: a_def abs_mult)
  moreover have "k * a = k / 30 * parseInt period" by (simp add: a_def)
  ultimately show ?thesis by simp
qed

lemma fallback_fields:
  "predicted_kwh (fallbackData baseData period)
     = toFixed (js_times (to_number (predicted_kwh baseData)) (binary64 (parseInt period / 30)))"
  "bill_total_amount (fallbackData baseData period)
     = toFixed (js_times (to_number (bill_total_amount baseData)) (binary64 (parseInt period / 30)))"
  "daily_avg_kwh (fallbackData baseData period)
     = toFixed (js_over (js_times (to_number (predicted_kwh baseData))
         (binary64 (parseInt period / 30))) (parseInt period))"
  "daily_avg_cost (fallbackData baseData period)
     = toFixed (js_over (js_times (to_number (bill_total_amount baseData))
         (binary64 (parseInt period / 30))) (parseInt period))"
  "confidence (fallbackData baseData period) = Some ''estimated''"
  by (simp_all add: fallbackData_def Let_def)

lemma fallback_printed:
  assumes "10 ^ 21 \<le> \<bar>scaled v period\<bar>" and "\<bar>scaled v period\<bar> < 2 ^ 1024"
  shows "toFixed (js_times (DFin v) (binary64 (parseInt period / 30)))
      = Printed (DFin (scaled v period))"
proof -
  have "js_times (DFin v) (binary64 (parseInt period / 30)) = DFin (scaled v period)"
    using assms(2) by (simp add: scaled_def fit_def Let_def)
  then show ?thesis using assms(1) by simp
qed

lemma handler_fallback:
  assumes "fetch period = NotOkResponse \<or> fetch period = FetchThrows"
  shows "forecastData (handlePredictionPeriodChange period fetch (Some baseData) st)
      = Some (fallbackData baseData period)"
    and "forecastData (handlePredictionPeriodChange period fetch None st) = None"
  using assms by (auto simp add: handlePredictionPeriodChange_def Let_def)


lemma scaled_samples:
  "scaled 10 D365 = 4280765270807893 / 35184372088832"
  "scaled (5764607523034235 / 576460752303423488) D45 = 1080863910568919 / 72057594037927936"
  "scaled 1000000000000000000000 D365 = 12166666666666667016192"
  "scaled 1000000000000000000000 D30 = 1000000000000000000000"
  "scaled (9 / 4) D30 = 9 / 4"
  "scaled (2617717283409101 / 562949953421312) D30 = 2617717283409101 / 562949953421312"
  by (simp_all add: scaled_def binary64_eval)





text \<open>
  C5, as the spec states it, fails. For a base prediction of 10 kWh and a period of 365
  days the fallback \<open>predicted_kwh\<close> is the text 121.67, which is not the base daily
  average \<open>10 / 30\<close> times 365. When the dashboard holds no base prediction, a failed
  request stores no forecast at all; a base prediction without \<open>predicted_kwh\<close> gives the
  text "NaN"; and for a base value of \<open>10 ^ 21\<close> the text is the plain printing of the
  machine product, which is not the exact product either.
\<close>

theorem fallback_exact_counterexample:
  "forecastData (handlePredictionPeriodChange D365 predict_down
      (Some \<lparr>predicted_kwh = Number 10, bill_total_amount = Number 5,
         daily_avg_kwh = Missing, daily_avg_cost = Missing,
         prediction_period_days = None, confidence = None\<rparr>)
      \<lparr>selectedPredictionPeriod = D30, forecastData = None, isLoadingForecast = False\<rparr>)
    = Some (fallbackData \<lparr>predicted_kwh = Number 10, bill_total_amount = Number 5,
         daily_avg_kwh = Missing, daily_avg_cost = Missing,
         prediction_period_days = None, confidence = None\<rparr> D365)
   \<and> predicted_kwh (fallbackData \<lparr>predicted_kwh = Number 10, bill_total_amount = Number 5,
         daily_avg_kwh = Missing, daily_avg_cost = Missing,
         prediction_period_days = None, confidence = None\<rparr> D365) = Decimal (12167 / 100)
   \<and> (12167 / 100 :: real) \<noteq> 10 / 30 * 365
   \<and> forecastData (handlePredictionPeriodChange D365 predict_down None
      \<lparr>selectedPredictionPeriod = D30, forecastData = None, isLoadingForecast = False\<rparr>) = None
   \<and> predicted_kwh (fallbackData \<lparr>predicted_kwh = Missing, bill_total_amount = Number 5,
         daily_avg_kwh = Missing, daily_avg_cost = Missing,
         prediction_period_days = None, confidence = None\<rparr> D365) = Printed DNaN
   \<and> predicted_kwh (fallbackData \<lparr>predicted_kwh = Number 1000000000000000000000,
         bill_total_amount = Number 5, daily_avg_kwh = Missing, daily_avg_cost = Missing,
         prediction_period_days = None, confidence = None\<rparr> D365)
       = Printed (DFin 12166666666666667016192)
   \<and> (12166666666666667016192 :: real) \<noteq> 1000000000000000000000 / 30 * 365"
proof -
  have "toFixed (js_times (DFin 10) (binary64 (parseInt D365 / 30)))
      = Decimal (toFixed2 (scaled 10 D365))"
    by (rule fallback_texts) (simp add: scaled_samples)
  moreover have "toFixed2 (scaled 10 D365) = 12167 / 100"
    unfolding scaled_samples by (simp add: toFixed2_def)
  ultimately have a: "predicted_kwh (fallbackData \<lparr>predicted_kwh = Number 10,
         bill_total_amount = Number 5, daily_avg_kwh = Missing, daily_avg_cost = Missing,
         prediction_period_days = None, confidence = None\<rparr> D365) = Decimal (12167 / 100)"
    by (simp only: fallback_fields forecast.simps to_number.simps)
  have b: "predicted_kwh (fallbackData \<lparr>predicted_kwh = Missing, bill_total_amount = Number 5,
         daily_avg_kwh = Missing, daily_avg_cost = Missing,
         prediction_period_days = None, confidence = None\<rparr> D365) = Printed DNaN"
    by (simp only: fallback_fields forecast.simps to_number.simps js_times.simps toFixed.simps)
  have "toFixed (js_times (DFin 1000000000000000000000) (binary64 (parseInt D365 / 30)))
      = Printed (DFin (scaled 1000000000000000000000 D365))"
    by (rule fallback_printed) (simp_all add: scaled_samples)
  then have c: "predicted_kwh (fallbackData \<lparr>predicted_kwh = Number 1000000000000000000000,
         bill_total_amount = Number 5, daily_avg_kwh = Missing, daily_avg_cost = Missing,
         prediction_period_days = None, confidence = None\<rparr> D365)
       = Printed (DFin 12166666666666667016192)"
    by (simp only: fallback_fields forecast.simps to_number.simps scaled_samples)
  have h: "predict_down D365 = NotOkResponse \<or> predict_down D365 = FetchThrows"
    by (simp add: predict_down_def)
  show ?thesis
    using a b c handler_fallback [of predict_down D365] h by simp
qed

text \<open>
  C5, amended. When the forecast request fails (the response is not OK, or the call
  throws) and the dashboard holds a base prediction with a numeric \<open>predicted_kwh\<close>
  whose product with the multiplier stays below \<open>10 ^ 21\<close>, the forecast stored is the
  fallback: it is tagged "estimated", and its \<open>predicted_kwh\<close> is the two-decimal text
  of the machine product of the base value and days over 30. It equals the base daily
  average \<open>predicted_kwh / 30\<close> times the number of days up to rounding: up to 0.005 for
  the two decimals plus the \<open>2 ^ 51\<close>th part of that product for the machine arithmetic.
\<close>

theorem fallback_estimated:
  assumes "fetch period = NotOkResponse \<or> fetch period = FetchThrows"
    and "predicted_kwh baseData = Number k" and "\<bar>scaled k period\<bar> < 10 ^ 21"
  shows "forecastData (handlePredictionPeriodChange period fetch (Some baseData) st)
        = Some (fallbackData baseData period)
    \<and> confidence (fallbackData baseData period) = Some ''estimated''
    \<and> predicted_kwh (fallbackData baseData period) = Decimal (toFixed2 (scaled k period))
    \<and> \<bar>toFixed2 (scaled k period) - k / 30 * parseInt period\<bar>
        \<le> 1 / 200 + \<bar>k * parseInt period / 30\<bar> / 2 ^ 51"
proof -
  have "\<bar>toFixed2 (scaled k period) - k / 30 * parseInt period\<bar>
        \<le> 1 / 200 + \<bar>k * parseInt period / 30\<bar> / 2 ^ 51"
    using toFixed2_error [of "scaled k period"] scaled_error [of k period] by linarith
  moreover have "predicted_kwh (fallbackData baseData period) = Decimal (toFixed2 (scaled k period))"
    and "confidence (fallbackData baseData period) = Some ''estimated''"
    using fallback_texts(1) [OF assms(3)] assms(2) by (simp_all add: fallbackData_def Let_def)
  moreover have "forecastData (handlePredictionPeriodChange period fetch (Some baseData) st)
      = Some (fallbackData baseData period)"
    using assms(1) by (auto simp add: handlePredictionPeriodChange_def Let_def)
  ultimately show ?thesis
    by blast
qed

theorem fallback_estimated_witness:
  "(predict_down D45 = NotOkResponse \<or> predict_down D45 = FetchThrows)
   \<and> \<bar>scaled (5764607523034235 / 576460752303423488) D45\<bar> < 10 ^ 21
   \<and> confidence (fallbackData \<lparr>predicted_kwh = Number (5764607523034235 / 576460752303423488),
        bill_total_amount = Number 40, daily_avg_kwh = Missing, daily_avg_cost = Missing,
        prediction_period_days = None, confidence = None\<rparr> D45) = Some ''estimated''
   \<and> predicted_kwh (fallbackData \<lparr>predicted_kwh = Number (5764607523034235 / 576460752303423488),
        bill_total_amount = Number 40, daily_avg_kwh = Missing, daily_avg_cost = Missing,
        prediction_period_days = None, confidence = None\<rparr> D45) = Decimal (1 / 100)"
proof -
  let ?base = "\<lparr>predicted_kwh = Number (5764607523034235 / 576460752303423488),
        bill_total_amount = Number 40, daily_avg_kwh = Missing, daily_avg_cost = Missing,
        prediction_period_days = None, confidence = None\<rparr>"
  let ?st = "\<lparr>selectedPredictionPeriod = D30, forecastData = None, isLoadingForecast = False\<rparr>"
  have r: "\<bar>scaled (5764607523034235 / 576460752303423488) D45\<bar> < 10 ^ 21"
    by (simp add: scaled_samples)
  have h: "predict_down D45 = NotOkResponse \<or> predict_down D45 = FetchThrows"
    by (simp add: predict_down_def)
  have p: "predicted_kwh ?base = Number (5764607523034235 / 576460752303423488)"
    by simp
  have t: "confidence (fallbackData ?base D45) = Some ''estimated''
    \<and> predicted_kwh (fallbackData ?base D45)
        = Decimal (toFixed2 (scaled (5764607523034235 / 576460752303423488) D45))"
    using fallback_estimated [of predict_down D45 ?base
        "5764607523034235 / 576460752303423488" ?st] h p r
    by blast
  have "toFixed2 (scaled (5764607523034235 / 576460752303423488) D45) = 1 / 100"
    unfolding scaled_samples by (simp add: toFixed2_def)
  then show ?thesis
    using h r t by simp
qed

section \<open>Tool lookups\<close>

lemma lookup_calls: "fst (lookup url net) = [(url, 10000)]"
  by (simp add: lookup_def default_timeoutMs_def)

text \<open>
  C7. The forecast tool accepts a number of days only when it is an integer from 1 to
  365: every other number, and every value that is no number, is rejected as invalid
  input and no request is made; an accepted value is passed to the server as it is, by
  one request. The periods the dashboard can ask for lie within the same bounds.
\<close>

theorem days_outside_bounds_rejected:
  "((d < 1 \<or> 365 < d \<or> of_int \<lfloor>d\<rfloor> \<noteq> d) \<longrightarrow>
      getPredictedBillAndTariff (Given d) net = InvalidInput)
   \<and> (1 \<le> d \<and> d \<le> 365 \<and> of_int \<lfloor>d\<rfloor> = d \<longrightarrow>
      getPredictedBillAndTariff (Given d) net = Valid (lookup (PredictReq d) net)
      \<and> fst (lookup (PredictReq d) net) = [(PredictReq d, 10000)])
   \<and> getPredictedBillAndTariff NotNumber net = InvalidInput
   \<and> 1 \<le> parseInt period \<and> parseInt period \<le> 365"
  using parseInt_bounds [of period]
  by (auto simp add: getPredictedBillAndTariff_def execute_predict_def lookup_calls)

theorem days_outside_bounds_rejected_witness:
  "((366::real) < 1 \<or> (365::real) < 366 \<or> of_int \<lfloor>366::real\<rfloor> \<noteq> (366::real))
   \<and> getPredictedBillAndTariff (Given 366) silent_net = InvalidInput
   \<and> ((1::real) \<le> 45 \<and> (45::real) \<le> 365 \<and> of_int \<lfloor>45::real\<rfloor> = (45::real))
   \<and> getPredictedBillAndTariff (Given 45) silent_net
      = Valid ([(PredictReq 45, 10000)], ErrorValue Aborted)"
proof -
  have "getPredictedBillAndTariff (Given 366) silent_net = InvalidInput"
    using days_outside_bounds_rejected [of 366 silent_net D30] by simp
  moreover have "getPredictedBillAndTariff (Given 45) silent_net
      = Valid (lookup (PredictReq 45) silent_net)"
    using days_outside_bounds_rejected [of 45 silent_net D30] by simp
  moreover have "lookup (PredictReq 45) silent_net = ([(PredictReq 45, 10000)], ErrorValue Aborted)"
    by (simp add: lookup_def default_timeoutMs_def fetchJSON_def silent_net_def)
  ultimately show ?thesis by simp
qed

text \<open>
  C8, as the spec states it, fails: the weather lookup is not the only network call.
  The device tool makes one as well, under the same timeout.
\<close>

theorem other_lookup_counterexample:
  "fst (getDeviceConsumptionData silent_net) = [(DevicesReq, 10000)]
   \<and> DevicesReq \<noteq> WeatherReq ''Chennai''"
  by (simp add: getDeviceConsumptionData_def lookup_calls)

text \<open>
  C8, amended. The weather lookup is one network call with a timeout of 10000
  milliseconds. When the network never answers, or the complete response takes 10000
  milliseconds or more, the tool returns the error value of an aborted call; when the
  call fails, the response is not OK or its body is no JSON, it returns an error value
  as well; it returns the JSON exactly when an OK response with a JSON body is complete
  in less than 10000 milliseconds. The tool never throws.
\<close>

theorem weather_lookup_degrades:
  "fst (getWeatherData city net) = [(WeatherReq city, 10000)]
   \<and> (net (WeatherReq city) = Hangs \<longrightarrow> snd (getWeatherData city net) = ErrorValue Aborted)
   \<and> (net (WeatherReq city) = Responds latency ok st body \<and> 10000 \<le> latency \<longrightarrow>
        snd (getWeatherData city net) = ErrorValue Aborted)
   \<and> (net (WeatherReq city) = Fails m \<longrightarrow>
        snd (getWeatherData city net) = ErrorValue (NetworkFailure m))
   \<and> (net (WeatherReq city) = Responds latency False st body \<and> latency < 10000 \<longrightarrow>
        snd (getWeatherData city net) = ErrorValue (HttpStatus st))
   \<and> (net (WeatherReq city) = Responds latency True st None \<and> latency < 10000 \<longrightarrow>
        snd (getWeatherData city net) = ErrorValue BadBody)
   \<and> (snd (getWeatherData city net) = Json j \<longleftrightarrow>
        (\<exists>l s. net (WeatherReq city) = Responds l True s (Some j) \<and> l < 10000))"
  by (auto simp add: getWeatherData_def lookup_def default_timeoutMs_def fetchJSON_def
      split: net_behaviour.splits option.splits)

theorem weather_lookup_degrades_witness:
  "silent_net (WeatherReq ''Chennai'') = Hangs
   \<and> getWeatherData ''Chennai'' silent_net = ([(WeatherReq ''Chennai'', 10000)], ErrorValue Aborted)"
proof -
  have h: "silent_net (WeatherReq ''Chennai'') = Hangs"
    by (simp add: silent_net_def)
  have "fst (getWeatherData ''Chennai'' silent_net) = [(WeatherReq ''Chennai'', 10000)]
      \<and> snd (getWeatherData ''Chennai'' silent_net) = ErrorValue Aborted"
    using h weather_lookup_degrades [of "''Chennai''" silent_net] by simp
  then show ?thesis
    using h by (simp add: prod_eq_iff)
qed

section \<open>Failed uploads\<close>

text \<open>
  C9. A failed upload publishes nothing. When the file name does not end in ".json",
  the backend is not connected, the text is no JSON or is JSON but no array, the upload
  call throws, or the server's answer is not an OK response with status "success", then
  \<open>handleFile\<close> ends in an error status and invokes neither callback, so the reading set
  and the dashboard data of the page are what they were.
\<close>

theorem failed_upload_publishes_nothing:
  assumes "\<not> suffix ''.json'' (file_name f) \<or> \<not> isConnected
    \<or> (\<exists>m. parse (file_text f) = Inl m)
    \<or> (\<exists>j. parse (file_text f) = Inr j \<and> (\<forall>data. j \<noteq> JArr data))
    \<or> (\<exists>data m. parse (file_text f) = Inr (JArr data) \<and> upload data = UploadThrows m)
    \<or> (\<exists>data ok r. parse (file_text f) = Inr (JArr data) \<and> upload data = UploadReply ok r
          \<and> \<not> (ok \<and> status r = Some ''success''))"
  shows "fst (snd (handleFile f isConnected parse upload)) = []
    \<and> stype (fst (handleFile f isConnected parse upload)) = Some ErrorStatus
    \<and> page_after_upload f isConnected parse upload loadDashboardData pg = pg"
proof -
  have "fst (snd (handleFile f isConnected parse upload)) = []
      \<and> stype (fst (handleFile f isConnected parse upload)) = Some ErrorStatus"
    using assms
    by (auto simp add: handleFile_def error_status_def split: sum.splits json.splits)
  then show ?thesis
    by (simp add: page_after_upload_def)
qed

theorem failed_upload_publishes_nothing_witness:
  "array_parser (file_text \<lparr>file_name = ''readings.json'', file_text = ''[1]''\<rparr>)
      = Inr (JArr [JNum 1])
   \<and> refusing_server [JNum 1]
      = UploadReply False
          \<lparr>status = Some ''error'', error_text = Some ''bad rows'', rows_loaded = None\<rparr>
   \<and> \<not> (False \<and> Some ''error'' = Some ''success'')
   \<and> fst (snd (handleFile \<lparr>file_name = ''readings.json'', file_text = ''[1]''\<rparr> True
        array_parser refusing_server)) = []
   \<and> stype (fst (handleFile \<lparr>file_name = ''readings.json'', file_text = ''[1]''\<rparr> True
        array_parser refusing_server)) = Some ErrorStatus
   \<and> page_after_upload \<lparr>file_name = ''readings.json'', file_text = ''[1]''\<rparr> True
        array_parser refusing_server counting_reload \<lparr>energyData = [JNum 7], dashboardData = 0\<rparr>
      = \<lparr>energyData = [JNum 7], dashboardData = 0\<rparr>"
proof -
  let ?f = "\<lparr>file_name = ''readings.json'', file_text = ''[1]''\<rparr>"
  let ?r = "\<lparr>status = Some ''error'', error_text = Some ''bad rows'', rows_loaded = None\<rparr>"
  have p: "array_parser (file_text ?f) = Inr (JArr [JNum 1])"
    by (simp add: array_parser_def)
  have u: "refusing_server [JNum 1] = UploadReply False ?r"
    by (simp add: refusing_server_def)
  have "array_parser (file_text ?f) = Inr (JArr [JNum 1])
      \<and> refusing_server [JNum 1] = UploadReply False ?r
      \<and> \<not> (False \<and> status ?r = Some ''success'')"
    using p u by simp
  then have h: "\<exists>data ok r. array_parser (file_text ?f) = Inr (JArr data)
      \<and> refusing_server data = UploadReply ok r \<and> \<not> (ok \<and> status r = Some ''success'')"
    by blast
  have "fst (snd (handleFile ?f True array_parser refusing_server)) = []
      \<and> stype (fst (handleFile ?f True array_parser refusing_server)) = Some ErrorStatus
      \<and> page_after_upload ?f True array_parser refusing_server counting_reload
          \<lparr>energyData = [JNum 7], dashboardData = 0\<rparr>
        = \<lparr>energyData = [JNum 7], dashboardData = 0\<rparr>"
    using h by (intro failed_upload_publishes_nothing) blast
  then show ?thesis
    using p u by simp
qed

end
